theory Spec2Isabelle
  imports Complex_Main "HOL-Library.Sublist"
begin

section \<open>Text preprocessing for toxic-comment classification\<close>

text \<open>
  A shallow embedding of \<^verbatim>\<open>preprocessing.py\<close> and
  \<^verbatim>\<open>preprocessing/feature_engineering.py\<close>. The library calls the two files make
  (\<^verbatim>\<open>re.sub\<close>, \<^verbatim>\<open>str.replace\<close>, the Keras \<^verbatim>\<open>Tokenizer\<close> and
  \<^verbatim>\<open>pad_sequences\<close>, the pandas frame operations) are written out as HOL functions that
  follow the libraries' own code, so that every call of the source is a call of the model.
\<close>

subsection \<open>Errors\<close>

text \<open>The exceptions the modelled code can raise; a raise is the value \<open>Inl e\<close>.\<close>

datatype py_error =
    KeyError
  | ValueError
  | TypeError
  | AttributeError
  | UnboundLocalError
  | OverflowError

subsection \<open>Python strings\<close>

text \<open>
  A Python \<^verbatim>\<open>str\<close> is a sequence of Unicode code points, so a text is a list of
  natural numbers; \<open>py\<close> turns an ASCII literal into one.
\<close>

type_synonym ustr = "nat list"

definition py :: "string \<Rightarrow> ustr" where
  "py cs = map of_char cs"

abbreviation (input) LF :: nat where "LF \<equiv> 10"
abbreviation (input) CR :: nat where "CR \<equiv> 13"
abbreviation (input) SPACE :: nat where "SPACE \<equiv> 32"
abbreviation (input) BANG :: nat where "BANG \<equiv> 33"
abbreviation (input) AT :: nat where "AT \<equiv> 64"

definition is_upper :: "nat \<Rightarrow> bool" where
  "is_upper c = (65 \<le> c \<and> c \<le> 90)"

definition is_lower :: "nat \<Rightarrow> bool" where
  "is_lower c = (97 \<le> c \<and> c \<le> 122)"

text \<open>The class \<^verbatim>\<open>[a-zA-Z]\<close>.\<close>

definition is_letter :: "nat \<Rightarrow> bool" where
  "is_letter c = (is_upper c \<or> is_lower c)"

text \<open>
  The class \<^verbatim>\<open>[a-z]\<close> under \<^verbatim>\<open>re.IGNORECASE\<close>: the 52 ASCII letters and the four
  code points whose case folding is an ASCII letter (U+0130, U+0131, U+017F, U+212A).
\<close>

definition is_letter_ic :: "nat \<Rightarrow> bool" where
  "is_letter_ic c = (is_letter c \<or> c = 304 \<or> c = 305 \<or> c = 383 \<or> c = 8490)"

text \<open>The class \<^verbatim>\<open>\s\<close> of a \<^verbatim>\<open>str\<close> pattern, which is also what \<^verbatim>\<open>str.strip\<close> removes.\<close>

definition is_space :: "nat \<Rightarrow> bool" where
  "is_space c = ((9 \<le> c \<and> c \<le> 13) \<or> (28 \<le> c \<and> c \<le> 32) \<or> c = 133 \<or> c = 160
                 \<or> c = 5760 \<or> (8192 \<le> c \<and> c \<le> 8202) \<or> c = 8232 \<or> c = 8233
                 \<or> c = 8239 \<or> c = 8287 \<or> c = 12288)"

text \<open>
  \<^verbatim>\<open>str.lower\<close> on the ASCII range. Every call of the source applies it to a text
  that a regex has already reduced to ASCII letters, spaces and exclamation marks.
\<close>

definition lower_char :: "nat \<Rightarrow> nat" where
  "lower_char c = (if is_upper c then c + 32 else c)"

definition lower :: "ustr \<Rightarrow> ustr" where
  "lower s = map lower_char s"

text \<open>\<^verbatim>\<open>str.strip()\<close>.\<close>

definition strip :: "ustr \<Rightarrow> ustr" where
  "strip s = rev (dropWhile is_space (rev (dropWhile is_space s)))"

text \<open>
  \<^verbatim>\<open>s.replace(old, new)\<close> for a non-empty \<^verbatim>\<open>old\<close> (the source only passes
  non-empty literals): the occurrences are found from the left and do not overlap. The
  counter is the number of characters of a found occurrence still to be skipped.
\<close>

fun replace_from :: "ustr \<Rightarrow> ustr \<Rightarrow> nat \<Rightarrow> ustr \<Rightarrow> ustr" where
  "replace_from old new k [] = []"
| "replace_from old new k (c # cs) =
     (if 0 < k then replace_from old new (k - 1) cs
      else if old \<noteq> [] \<and> take (length old) (c # cs) = old
      then new @ replace_from old new (length old - 1) cs
      else c # replace_from old new 0 cs)"

definition replace :: "ustr \<Rightarrow> ustr \<Rightarrow> ustr \<Rightarrow> ustr" where
  "replace s old new = replace_from old new 0 s"

subsection \<open>The regular-expression substitutions of the source\<close>

text \<open>
  \<^verbatim>\<open>re.sub(r'^(http:\/\/www\.|https:\/\/www\.|http:\/\/|https:\/\/).*[\r\n]*', ' ', x)\<close>.
  The pattern is anchored at the start of the text. After one of the four prefixes,
  \<^verbatim>\<open>.*\<close> takes everything up to the first line feed and \<^verbatim>\<open>[\r\n]*\<close> the line breaks
  that follow; the prefixes hold no line feed, so the match is the first line and the run of
  line breaks after it.
\<close>

definition starts_with :: "ustr \<Rightarrow> ustr \<Rightarrow> bool" where
  "starts_with s p = (take (length p) s = p)"

definition sub_http :: "ustr \<Rightarrow> ustr" where
  "sub_http x =
     (if starts_with x (py ''http://www.'') \<or> starts_with x (py ''https://www.'')
         \<or> starts_with x (py ''http://'') \<or> starts_with x (py ''https://'')
      then SPACE # dropWhile (\<lambda>c. c = CR \<or> c = LF) (dropWhile (\<lambda>c. c \<noteq> LF) x)
      else x)"

text \<open>
  \<^verbatim>\<open>re.sub(r'\S*@\S*\s?', ' ', x)\<close>. A match starts at the first character of a
  maximal run of non-space characters that holds an \<^verbatim>\<open>@\<close>, and takes the whole run and one
  space character after it, if there is one. \<open>Start\<close>: at the start of a run or in
  spaces; \<open>Keep\<close>: inside a run without \<^verbatim>\<open>@\<close>; \<open>Drop\<close>: inside a matched run.
\<close>

datatype scan = Start | Keep | Drop

fun sub_email_from :: "scan \<Rightarrow> ustr \<Rightarrow> ustr" where
  "sub_email_from m [] = []"
| "sub_email_from m (c # cs) =
     (if is_space c then
        (if m = Drop then sub_email_from Start cs else c # sub_email_from Start cs)
      else
        (case m of
           Keep \<Rightarrow> c # sub_email_from Keep cs
         | Drop \<Rightarrow> sub_email_from Drop cs
         | Start \<Rightarrow>
             if AT \<in> set (takeWhile (\<lambda>d. \<not> is_space d) (c # cs))
             then SPACE # sub_email_from Drop cs
             else c # sub_email_from Keep cs))"

definition sub_email :: "ustr \<Rightarrow> ustr" where
  "sub_email x = sub_email_from Start x"

text \<open>
  \<^verbatim>\<open>re.sub(r'(?<![a-z])u(?![a-z])', 'you', x, flags=re.IGNORECASE)\<close>: a \<^verbatim>\<open>u\<close> or
  \<^verbatim>\<open>U\<close> with no letter (in the sense of \<open>is_letter_ic\<close>) right before or right after it in
  \<^verbatim>\<open>x\<close>. The first argument is the character before the current position.
\<close>

fun sub_u_from :: "nat option \<Rightarrow> ustr \<Rightarrow> ustr" where
  "sub_u_from prev [] = []"
| "sub_u_from prev (c # cs) =
     (if (c = 117 \<or> c = 85)
         \<and> \<not> (case prev of None \<Rightarrow> False | Some p \<Rightarrow> is_letter_ic p)
         \<and> \<not> (case cs of [] \<Rightarrow> False | d # _ \<Rightarrow> is_letter_ic d)
      then py ''you'' @ sub_u_from (Some c) cs
      else c # sub_u_from (Some c) cs)"

definition sub_u :: "ustr \<Rightarrow> ustr" where
  "sub_u x = sub_u_from None x"

text \<open>\<^verbatim>\<open>re.sub(r"[^a-zA-Z!]", ' ', x)\<close> and \<^verbatim>\<open>re.sub(r"[^a-zA-Z]", ' ', x)\<close>.\<close>

definition sub_not_letter_bang :: "ustr \<Rightarrow> ustr" where
  "sub_not_letter_bang x = map (\<lambda>c. if is_letter c \<or> c = BANG then c else SPACE) x"

definition sub_not_letter :: "ustr \<Rightarrow> ustr" where
  "sub_not_letter x = map (\<lambda>c. if is_letter c then c else SPACE) x"

text \<open>
  \<^verbatim>\<open>re.sub('\!+', '! ', x)\<close>: every maximal run of exclamation marks becomes
  \<^verbatim>\<open>"! "\<close>. The flag says that the character before was an exclamation mark.
\<close>

fun sub_bangs_from :: "bool \<Rightarrow> ustr \<Rightarrow> ustr" where
  "sub_bangs_from b [] = []"
| "sub_bangs_from b (c # cs) =
     (if c = BANG then (if b then sub_bangs_from True cs
                        else BANG # SPACE # sub_bangs_from True cs)
      else c # sub_bangs_from False cs)"

definition sub_bangs :: "ustr \<Rightarrow> ustr" where
  "sub_bangs x = sub_bangs_from False x"

text \<open>
  \<^verbatim>\<open>re.sub('\s+', ' ', x)\<close>: every maximal run of space characters becomes one
  space. The flag says that the character before was a space character.
\<close>

fun sub_spaces_from :: "bool \<Rightarrow> ustr \<Rightarrow> ustr" where
  "sub_spaces_from b [] = []"
| "sub_spaces_from b (c # cs) =
     (if is_space c then (if b then sub_spaces_from True cs
                          else SPACE # sub_spaces_from True cs)
      else c # sub_spaces_from False cs)"

definition sub_spaces :: "ustr \<Rightarrow> ustr" where
  "sub_spaces x = sub_spaces_from False x"

subsection \<open>The two sanitizers, on one text\<close>

text \<open>
  The chain of \<^verbatim>\<open>apply\<close> calls of \<^verbatim>\<open>Sanitize\<close> in
  \<^verbatim>\<open>feature_engineering.py\<close>, on one comment, in the order of the source.
\<close>

definition Sanitize_text :: "ustr \<Rightarrow> ustr" where
  "Sanitize_text x0 =
     (let x1 = replace x0 (py ''NEWLINE_TOKEN'') (py '' '');
          x2 = replace x1 (py ''TAB_TOKEN'') (py '' '');
          x3 = sub_http x2;
          x4 = sub_email x3;
          x5 = sub_u x4;
          x6 = sub_not_letter_bang x5;
          x7 = sub_bangs x6;
          x8 = strip (sub_spaces x7)
      in lower x8)"

text \<open>
  The chain of \<^verbatim>\<open>apply\<close> calls of \<^verbatim>\<open>text_normalization\<close> in
  \<^verbatim>\<open>preprocessing.py\<close>, on one comment.
\<close>

definition text_normalization_text :: "ustr \<Rightarrow> ustr" where
  "text_normalization_text x0 =
     (let x1 = sub_not_letter x0;
          x2 = strip (sub_spaces x1);
          x3 = replace x2 (py ''http'') []
      in lower x3)"

subsection \<open>pandas: cells, columns and frames\<close>

text \<open>
  A cell of a frame holds a string, a number, or is missing (\<^verbatim>\<open>NaN\<close> / \<^verbatim>\<open>None\<close>).
  A frame has an index (one label per row) and named columns, in their order; every
  column has one cell per row.
\<close>

datatype cell = Str ustr | Num rat | NaN

record frame =
  idx :: "cell list"
  cols :: "(string \<times> cell list) list"

text \<open>Sequencing of calls that can raise: the first error ends the run.\<close>

definition and_then :: "'e + 'a \<Rightarrow> ('a \<Rightarrow> 'e + 'b) \<Rightarrow> 'e + 'b" where
  "and_then r f = (case r of Inl e \<Rightarrow> Inl e | Inr v \<Rightarrow> f v)"

text \<open>\<^verbatim>\<open>name in df\<close>, \<^verbatim>\<open>df[name]\<close> (a \<^verbatim>\<open>KeyError\<close> when there is no such column) and
  the assignment \<^verbatim>\<open>df[name] = col\<close>, which replaces the column where it stands or adds it
  as the last one.\<close>

definition has_col :: "frame \<Rightarrow> string \<Rightarrow> bool" where
  "has_col df name = (name \<in> set (map fst (cols df)))"

definition get_col :: "frame \<Rightarrow> string \<Rightarrow> py_error + cell list" where
  "get_col df name = (case map_of (cols df) name of None \<Rightarrow> Inl KeyError | Some c \<Rightarrow> Inr c)"

fun replace_col :: "string \<Rightarrow> cell list \<Rightarrow> (string \<times> cell list) list \<Rightarrow> (string \<times> cell list) list" where
  "replace_col name col [] = []"
| "replace_col name col ((n, c) # cs) =
     (if n = name then (n, col) else (n, c)) # replace_col name col cs"

definition set_col :: "frame \<Rightarrow> string \<Rightarrow> cell list \<Rightarrow> frame" where
  "set_col df name col =
     (if has_col df name
      then df\<lparr>cols := replace_col name col (cols df)\<rparr>
      else df\<lparr>cols := cols df @ [(name, col)]\<rparr>)"

text \<open>\<^verbatim>\<open>series.fillna(v)\<close>: the missing cells become the string \<^verbatim>\<open>v\<close>.\<close>

definition fillna :: "ustr \<Rightarrow> cell list \<Rightarrow> cell list" where
  "fillna v col = map (\<lambda>c. if c = NaN then Str v else c) col"

text \<open>
  \<^verbatim>\<open>series.apply(lambda x: ...)\<close> for a lambda that needs a string: on a cell that is
  not a string the lambda raises, \<^verbatim>\<open>AttributeError\<close> when it calls a \<^verbatim>\<open>str\<close> method
  (\<^verbatim>\<open>x.replace\<close>, \<^verbatim>\<open>x.lower\<close>), \<^verbatim>\<open>TypeError\<close> when it calls \<^verbatim>\<open>re.sub\<close>.
\<close>

fun apply_str :: "py_error \<Rightarrow> (ustr \<Rightarrow> ustr) \<Rightarrow> cell list \<Rightarrow> py_error + cell list" where
  "apply_str e f [] = Inr []"
| "apply_str e f (Str s # cs) =
     (case apply_str e f cs of Inl e' \<Rightarrow> Inl e' | Inr r \<Rightarrow> Inr (Str (f s) # r))"
| "apply_str e f (c # cs) = Inl e"

abbreviation (input) apply_method :: "(ustr \<Rightarrow> ustr) \<Rightarrow> cell list \<Rightarrow> py_error + cell list" where
  "apply_method \<equiv> apply_str AttributeError"

abbreviation (input) apply_re :: "(ustr \<Rightarrow> ustr) \<Rightarrow> cell list \<Rightarrow> py_error + cell list" where
  "apply_re \<equiv> apply_str TypeError"

text \<open>One line \<^verbatim>\<open>df[name] = f(df[name])\<close> of the source.\<close>

definition update_col ::
  "string \<Rightarrow> (cell list \<Rightarrow> py_error + cell list) \<Rightarrow> frame \<Rightarrow> py_error + frame" where
  "update_col name f df =
     and_then (get_col df name) (\<lambda>col. and_then (f col) (\<lambda>col'. Inr (set_col df name col')))"

subsection \<open>\<^verbatim>\<open>Sanitize\<close> (feature\_engineering.py)\<close>

text \<open>What the body of \<^verbatim>\<open>Sanitize\<close> does to the frame object it is given, line by line.\<close>

definition Sanitize_frame :: "frame \<Rightarrow> py_error + frame" where
  "Sanitize_frame df0 =
     (let comment = (if has_col df0 ''comment'' then ''comment'' else ''comment_text'') in
      and_then (update_col comment (\<lambda>c. Inr (fillna (py ''unk'') c)) df0) (\<lambda>df1.
      and_then (update_col comment
                  (apply_method (\<lambda>x. replace x (py ''NEWLINE_TOKEN'') (py '' ''))) df1) (\<lambda>df2.
      and_then (update_col comment
                  (apply_method (\<lambda>x. replace x (py ''TAB_TOKEN'') (py '' ''))) df2) (\<lambda>df3.
      and_then (update_col comment (apply_re sub_http) df3) (\<lambda>df4.
      and_then (update_col comment (apply_re sub_email) df4) (\<lambda>df5.
      and_then (update_col comment (apply_re sub_u) df5) (\<lambda>df6.
      and_then (update_col comment (apply_re sub_not_letter_bang) df6) (\<lambda>df7.
      and_then (update_col comment (apply_re sub_bangs) df7) (\<lambda>df8.
      and_then (update_col comment (apply_re (\<lambda>x. strip (sub_spaces x))) df8) (\<lambda>df9.
      update_col comment (apply_method lower) df9))))))))))"

subsection \<open>\<^verbatim>\<open>text_normalization\<close> (preprocessing.py)\<close>

text \<open>What \<^verbatim>\<open>text_normalization\<close> does to the frame object it is given.\<close>

definition text_normalization_frame :: "frame \<Rightarrow> py_error + frame" where
  "text_normalization_frame d0 =
     and_then (update_col ''comment_text'' (\<lambda>c. Inr (fillna (py ''unk'') c)) d0) (\<lambda>d1.
     and_then (update_col ''comment_text'' (apply_re sub_not_letter) d1) (\<lambda>d2.
     and_then (update_col ''comment_text'' (apply_re (\<lambda>x. strip (sub_spaces x))) d2) (\<lambda>d3.
     and_then (update_col ''comment_text''
                 (apply_method (\<lambda>x. replace x (py ''http'') [])) d3) (\<lambda>d4.
     update_col ''comment_text'' (apply_method lower) d4))))"

subsection \<open>The calls, with the caller's objects\<close>

text \<open>
  Both functions assign to \<^verbatim>\<open>df[...]\<close> of the object they are passed. A heap maps
  references to frames; a call changes the frame the argument refers to. \<^verbatim>\<open>Sanitize\<close>
  returns its argument, \<^verbatim>\<open>text_normalization\<close> returns \<^verbatim>\<open>None\<close>. When a line raises,
  the run ends and the heap is not looked at again.
\<close>

type_synonym ref = nat
type_synonym heap = "ref \<Rightarrow> frame"

definition Sanitize :: "heap \<Rightarrow> ref \<Rightarrow> py_error + (heap \<times> ref)" where
  "Sanitize h df = and_then (Sanitize_frame (h df)) (\<lambda>f. Inr (h(df := f), df))"

definition text_normalization :: "heap \<Rightarrow> ref \<Rightarrow> py_error + heap" where
  "text_normalization h text_data =
     and_then (text_normalization_frame (h text_data)) (\<lambda>f. Inr (h(text_data := f)))"

subsection \<open>Keras: \<^verbatim>\<open>sequence.pad_sequences\<close>\<close>

text \<open>
  The source calls \<^verbatim>\<open>sequence.pad_sequences(seqs, maxlen)\<close> with the defaults
  \<^verbatim>\<open>padding='pre'\<close>, \<^verbatim>\<open>truncating='pre'\<close>, \<^verbatim>\<open>value=0\<close>. Keras builds a matrix
  of zeros with \<^verbatim>\<open>maxlen\<close> columns and, for every sequence \<^verbatim>\<open>s\<close> that is not empty,
  runs \<^verbatim>\<open>trunc = s[-maxlen:]\<close> and \<^verbatim>\<open>x[idx, -len(trunc):] = trunc\<close>.
\<close>

text \<open>The Python slice \<^verbatim>\<open>s[-n:]\<close>: since \<^verbatim>\<open>-0\<close> is \<^verbatim>\<open>0\<close>, \<^verbatim>\<open>s[-0:]\<close> is all of \<^verbatim>\<open>s\<close>.\<close>

definition slice_last :: "'a list \<Rightarrow> nat \<Rightarrow> 'a list" where
  "slice_last s n = (if n = 0 then s else drop (length s - n) s)"

text \<open>
  The cells of the matrix are \<^verbatim>\<open>int32\<close> (the default \<^verbatim>\<open>dtype\<close>), and Keras converts
  a truncated sequence with \<^verbatim>\<open>np.asarray(trunc, dtype='int32')\<close> before it stores it. With
  numpy 1.x a Python integer that fits a C \<^verbatim>\<open>long\<close> is cut to its low 32 bits (two's
  complement) and a larger one raises \<^verbatim>\<open>OverflowError\<close>; numpy 2 raises for every value
  outside the \<^verbatim>\<open>int32\<close> range. A token below \<open>2\<^sup>3\<^sup>1\<close> is stored as it is by both.
\<close>

definition as_int32 :: "nat \<Rightarrow> py_error + int" where
  "as_int32 t =
     (if t < 2 ^ 63 then Inr ((int t + 2 ^ 31) mod 2 ^ 32 - 2 ^ 31) else Inl OverflowError)"

fun asarray_int32 :: "nat list \<Rightarrow> py_error + int list" where
  "asarray_int32 [] = Inr []"
| "asarray_int32 (t # ts) =
     (case as_int32 t of
        Inl e \<Rightarrow> Inl e
      | Inr v \<Rightarrow> (case asarray_int32 ts of Inl e \<Rightarrow> Inl e | Inr vs \<Rightarrow> Inr (v # vs)))"

text \<open>
  The numpy assignment \<^verbatim>\<open>row[-len(t):] = t\<close>: the target is the last
  \<open>min (length t) (length row)\<close> cells of the row; the value must have that length, or
  length one (it is then broadcast), otherwise numpy raises \<^verbatim>\<open>ValueError\<close>.
\<close>

definition assign_last :: "int list \<Rightarrow> int list \<Rightarrow> py_error + int list" where
  "assign_last row t =
     (let k = min (length t) (length row) in
      if length t = k then Inr (take (length row - k) row @ t)
      else if length t = 1 then Inr (take (length row - k) row @ replicate k (hd t))
      else Inl ValueError)"

text \<open>One turn of the loop of \<^verbatim>\<open>pad_sequences\<close>: an empty sequence is skipped and its
  row stays zero; another one is truncated, converted and stored.\<close>

definition pad_row :: "nat \<Rightarrow> nat list \<Rightarrow> py_error + int list" where
  "pad_row maxlen s =
     (if s = [] then Inr (replicate maxlen 0)
      else (case asarray_int32 (slice_last s maxlen) of
              Inl e \<Rightarrow> Inl e
            | Inr trunc \<Rightarrow> assign_last (replicate maxlen 0) trunc))"

fun pad_rows :: "nat \<Rightarrow> nat list list \<Rightarrow> py_error + int list list" where
  "pad_rows maxlen [] = Inr []"
| "pad_rows maxlen (s # ss) =
     (case pad_row maxlen s of
        Inl e \<Rightarrow> Inl e
      | Inr r \<Rightarrow> (case pad_rows maxlen ss of Inl e \<Rightarrow> Inl e | Inr rs \<Rightarrow> Inr (r # rs)))"

definition pad_sequences :: "nat list list \<Rightarrow> nat \<Rightarrow> py_error + int list list" where
  "pad_sequences sequences maxlen = pad_rows maxlen sequences"

text \<open>What a row becomes when the target length is positive and the tokens are in the
  \<^verbatim>\<open>int32\<close> range.\<close>

definition padded :: "nat \<Rightarrow> nat list \<Rightarrow> int list" where
  "padded L s = replicate (L - length s) 0 @ map int (drop (length s - L) s)"

subsection \<open>Keras: \<^verbatim>\<open>text.Tokenizer\<close>\<close>

text \<open>
  The state of a \<^verbatim>\<open>Tokenizer\<close> that the source reads: the cap \<^verbatim>\<open>num_words\<close>, the
  counts \<^verbatim>\<open>word_counts\<close> (an ordered dictionary: the words in the order they were first
  seen) and the dictionary \<^verbatim>\<open>word_index\<close>.
\<close>

record tokenizer =
  num_words :: nat
  word_counts :: "(ustr \<times> nat) list"
  word_index :: "(ustr \<times> nat) list"

text \<open>The default \<^verbatim>\<open>filters\<close> of the tokenizer: punctuation (without the apostrophe),
  tab and line feed.\<close>

definition is_filter :: "nat \<Rightarrow> bool" where
  "is_filter c = ((33 \<le> c \<and> c \<le> 38) \<or> (40 \<le> c \<and> c \<le> 47) \<or> (58 \<le> c \<and> c \<le> 64)
                  \<or> (91 \<le> c \<and> c \<le> 96) \<or> (123 \<le> c \<and> c \<le> 126) \<or> c = 9 \<or> c = 10)"

text \<open>\<^verbatim>\<open>s.split(' ')\<close>: the pieces between single spaces, empty ones included.\<close>

fun split_space :: "ustr \<Rightarrow> ustr list" where
  "split_space [] = [[]]"
| "split_space (c # cs) =
     (if c = SPACE then [] # split_space cs
      else (c # hd (split_space cs)) # tl (split_space cs))"

text \<open>
  \<^verbatim>\<open>text_to_word_sequence\<close>: lower-case, turn the filter characters into spaces, split
  at the spaces and drop the empty pieces. The lower-casing is \<open>lower\<close>, which is
  \<^verbatim>\<open>str.lower\<close> on ASCII texts only; the source hands the tokenizer texts that
  \<^verbatim>\<open>text_normalization\<close> or \<^verbatim>\<open>tokenize_single_sentence\<close> has reduced to ASCII letters
  and spaces, and the statements about the tokenizer are about ASCII texts.
\<close>

definition text_to_word_sequence :: "ustr \<Rightarrow> ustr list" where
  "text_to_word_sequence t =
     filter (\<lambda>w. w \<noteq> [])
       (split_space (map (\<lambda>c. if is_filter c then SPACE else c) (lower t)))"

text \<open>One step of the counting loop of \<^verbatim>\<open>fit_on_texts\<close>.\<close>

definition count_word :: "ustr \<Rightarrow> (ustr \<times> nat) list \<Rightarrow> (ustr \<times> nat) list" where
  "count_word w wc =
     (if w \<in> set (map fst wc)
      then map (\<lambda>(k, n). if k = w then (k, n + 1) else (k, n)) wc
      else wc @ [(w, 1)])"

text \<open>
  \<^verbatim>\<open>fit_on_texts\<close>: count the words of every text, sort the counted words by
  descending count (the sort of Python is stable, also with \<^verbatim>\<open>reverse=True\<close>) and number
  them from 1. The cap \<^verbatim>\<open>num_words\<close> plays no part here.
\<close>

definition fit_on_texts :: "tokenizer \<Rightarrow> ustr list \<Rightarrow> tokenizer" where
  "fit_on_texts tok texts =
     (let wcounts = fold (\<lambda>t wc. fold count_word (text_to_word_sequence t) wc) texts
                      (word_counts tok);
          sorted_voc = map fst (sort_key (\<lambda>wc. - int (snd wc)) wcounts)
      in tok\<lparr>word_counts := wcounts,
              word_index := zip sorted_voc [1 ..< Suc (length sorted_voc)]\<rparr>)"

text \<open>
  \<^verbatim>\<open>texts_to_sequences\<close>: a word without an index is dropped, and so is a word whose
  index is not below \<^verbatim>\<open>num_words\<close> (the test is \<^verbatim>\<open>if num_words and i >= num_words\<close>, so
  a cap of 0 is no cap).
\<close>

definition encode_word :: "tokenizer \<Rightarrow> ustr \<Rightarrow> nat list" where
  "encode_word tok w =
     (case map_of (word_index tok) w of
        None \<Rightarrow> []
      | Some i \<Rightarrow> if num_words tok \<noteq> 0 \<and> num_words tok \<le> i then [] else [i])"

definition texts_to_sequences :: "tokenizer \<Rightarrow> ustr list \<Rightarrow> nat list list" where
  "texts_to_sequences tok texts =
     map (\<lambda>t. concat (map (encode_word tok) (text_to_word_sequence t))) texts"

subsection \<open>\<^verbatim>\<open>TextPreprocessor\<close> (preprocessing.py)\<close>

record TextPreprocessor =
  max_nb_words :: nat
  max_padding_length :: nat
  combine_data :: bool
  use_extra_features :: bool
  tokenizer :: tokenizer

definition init :: "nat \<Rightarrow> nat \<Rightarrow> bool \<Rightarrow> bool \<Rightarrow> TextPreprocessor" where
  "init max_nb_words' max_padding_length' combine_data' use_extra_features' =
     \<lparr>max_nb_words = max_nb_words',
      max_padding_length = max_padding_length',
      combine_data = combine_data',
      use_extra_features = use_extra_features',
      tokenizer = \<lparr>num_words = max_nb_words', word_counts = [], word_index = []\<rparr>\<rparr>"

definition train_tokenizer :: "TextPreprocessor \<Rightarrow> ustr list \<Rightarrow> ustr list \<Rightarrow> TextPreprocessor" where
  "train_tokenizer self train_data test_data =
     (if combine_data self
      then self\<lparr>tokenizer := fit_on_texts (tokenizer self) (train_data @ test_data)\<rparr>
      else self\<lparr>tokenizer := fit_on_texts (tokenizer self) train_data\<rparr>)"

text \<open>
  \<^verbatim>\<open>tokenize_single_sentence\<close>. The sentence is a \<^verbatim>\<open>str\<close>, and
  \<^verbatim>\<open>texts_to_sequences\<close> iterates over its argument: it is given the characters of the
  sentence, each as a text of its own. The target length passed to \<^verbatim>\<open>pad_sequences\<close>
  is \<^verbatim>\<open>self.max_nb_words\<close>.
\<close>

definition tokenize_single_sentence ::
  "TextPreprocessor \<Rightarrow> ustr \<Rightarrow> py_error + int list list" where
  "tokenize_single_sentence self sentence0 =
     (let sentence1 = sub_not_letter sentence0;
          sentence2 = strip (sub_spaces sentence1);
          sentence3 = lower sentence2;
          tokenized_sentence = texts_to_sequences (tokenizer self) (map (\<lambda>c. [c]) sentence3)
      in pad_sequences tokenized_sentence (max_nb_words self))"

subsection \<open>\<^verbatim>\<open>load_and_tokenize\<close> (preprocessing.py)\<close>

text \<open>\<^verbatim>\<open>df[names].values\<close>: the cells of the named columns, row by row; a \<^verbatim>\<open>KeyError\<close>
  when a name is not a column.\<close>

fun get_cols :: "frame \<Rightarrow> string list \<Rightarrow> py_error + cell list list" where
  "get_cols df [] = Inr []"
| "get_cols df (n # ns) =
     and_then (get_col df n) (\<lambda>c. and_then (get_cols df ns) (\<lambda>cs. Inr (c # cs)))"

definition values_of :: "frame \<Rightarrow> string list \<Rightarrow> py_error + cell list list" where
  "values_of df names =
     and_then (get_cols df names)
       (\<lambda>cs. Inr (map (\<lambda>i. map (\<lambda>c. c ! i) cs) [0 ..< length (idx df)]))"

text \<open>The texts of a column handed to the tokenizer, which calls \<^verbatim>\<open>text.lower()\<close> on
  each: a cell that is not a string raises \<^verbatim>\<open>AttributeError\<close>.\<close>

fun texts_of :: "cell list \<Rightarrow> py_error + ustr list" where
  "texts_of [] = Inr []"
| "texts_of (Str s # cs) = and_then (texts_of cs) (\<lambda>ts. Inr (s # ts))"
| "texts_of (c # cs) = Inl AttributeError"

text \<open>
  The two shapes of the returned tuple. \<open>'s\<close> is the pair
  \<^verbatim>\<open>(sample_text, sample_target)\<close> that \<^verbatim>\<open>get_sentence\<close> gives.
\<close>

datatype 's loaded =
    WithAux (X_train: "int list list") (train_aux: "cell list list") (y_train: "cell list list")
            (X_test: "int list list") (test_aux: "cell list list")
            (vocabulary: "(ustr \<times> nat) list") (sample: 's)
  | NoAux (X_train: "int list list") (y_train: "cell list list") (X_test: "int list list")
          (vocabulary: "(ustr \<times> nat) list") (sample: 's)

text \<open>
  \<^verbatim>\<open>load_and_tokenize\<close>. Two things of the function are outside the two source files
  and are parameters: \<open>read_csv\<close>, the content of the data files by path, and
  \<^verbatim>\<open>get_sentence\<close>, imported from \<^verbatim>\<open>utils\<close>. The frames read are new objects, so
  \<^verbatim>\<open>text_normalization\<close> acts on them through \<open>text_normalization_frame\<close>. A local
  variable that is assigned in one branch only is an \<open>option\<close>: \<open>None\<close> is "unbound", and
  reading it then raises \<^verbatim>\<open>UnboundLocalError\<close>. The method also changes
  \<^verbatim>\<open>self.tokenizer\<close>; the new \<^verbatim>\<open>self\<close> is returned with the tuple.
\<close>

definition load_and_tokenize ::
  "(string \<Rightarrow> py_error + frame) \<Rightarrow> (int \<Rightarrow> string list \<Rightarrow> frame \<Rightarrow> py_error + 's) \<Rightarrow>
   TextPreprocessor \<Rightarrow> string list \<Rightarrow> int option \<Rightarrow>
   py_error + (TextPreprocessor \<times> 's loaded)" where
  "load_and_tokenize read_csv get_sentence self class_list sample_index =
     and_then (read_csv (if use_extra_features self then ''./data/train_with_convai.csv''
                         else ''./data/train.csv'')) (\<lambda>train0.
     and_then (read_csv (if use_extra_features self then ''./data/test_with_convai.csv''
                         else ''./data/test.csv'')) (\<lambda>test0.
     and_then (text_normalization_frame train0) (\<lambda>train.
     and_then (text_normalization_frame test0) (\<lambda>test.
     and_then (case sample_index of
                 None \<Rightarrow> Inr None
               | Some i \<Rightarrow> and_then (get_sentence i class_list train) (\<lambda>s. Inr (Some s)))
       (\<lambda>sample_text_target.
     and_then (get_col train ''comment_text'') (\<lambda>train_comments.
     and_then (values_of train class_list) (\<lambda>y_train.
     and_then (get_col test ''comment_text'') (\<lambda>test_comments.
     and_then (if use_extra_features self
               then and_then (values_of train [''toxic_level'', ''attack'', ''aggression''])
                      (\<lambda>a. Inr (Some a))
               else Inr None) (\<lambda>train_aux.
     and_then (if use_extra_features self
               then and_then (values_of test [''toxic_level'', ''attack'', ''aggression''])
                      (\<lambda>a. Inr (Some a))
               else Inr None) (\<lambda>test_aux.
     and_then (texts_of train_comments) (\<lambda>train_texts.
     and_then (texts_of test_comments) (\<lambda>test_texts.
     (let self' = train_tokenizer self train_texts test_texts;
          train_comments_tokenized = texts_to_sequences (tokenizer self') train_texts;
          test_comments_tokenized = texts_to_sequences (tokenizer self') test_texts;
          word_index = word_index (tokenizer self')
      in
     and_then (pad_sequences train_comments_tokenized (max_padding_length self')) (\<lambda>X_train.
     and_then (pad_sequences test_comments_tokenized (max_padding_length self')) (\<lambda>X_test.
     if use_extra_features self then
       (case (train_aux, test_aux, sample_text_target) of
          (Some tr, Some te, Some s) \<Rightarrow>
            Inr (self', WithAux X_train tr y_train X_test te word_index s)
        | _ \<Rightarrow> Inl UnboundLocalError)
     else
       (case sample_text_target of
          Some s \<Rightarrow> Inr (self', NoAux X_train y_train X_test word_index s)
        | None \<Rightarrow> Inl UnboundLocalError))))))))))))))))"

subsection \<open>The auxiliary models of \<^verbatim>\<open>main\<close> (feature\_engineering.py)\<close>

text \<open>
  scikit-learn is outside the source, so what its estimators compute is a parameter, and
  every call of it can raise: \<open>fit_transform\<close> fits a new \<^verbatim>\<open>TfidfVectorizer\<close> to the
  comments of a corpus and gives the matrix and the fitted vectorizer, \<open>transform\<close> applies
  a fitted vectorizer, \<open>cross_val_score\<close> scores copies of the estimator on the folds of a
  corpus (it raises \<^verbatim>\<open>ValueError\<close> on a corpus with fewer rows than folds, and leaves the
  estimator as it is), \<open>fit\<close> computes the state a \<^verbatim>\<open>Ridge\<close> holds after
  \<^verbatim>\<open>fit(X, y)\<close> and \<open>predict\<close> applies such a state. What is modelled is which object
  holds which state: an estimator is an object, \<^verbatim>\<open>Ridge()\<close> makes a new one, and
  \<^verbatim>\<open>ridge.fit(X, y)\<close> overwrites the state of \<^verbatim>\<open>ridge\<close> and returns \<^verbatim>\<open>ridge\<close> itself.
  The store lists the states of the \<^verbatim>\<open>Ridge\<close> objects made so far (\<open>None\<close>: not yet
  fitted); an object is its position in the store.
\<close>

type_synonym 'w store = "'w option list"

definition Ridge :: "'w store \<Rightarrow> 'w store \<times> ref" where
  "Ridge st = (st @ [None], length st)"

definition Ridge_fit ::
  "('x \<Rightarrow> cell list \<Rightarrow> py_error + 'w) \<Rightarrow> 'w store \<Rightarrow> ref \<Rightarrow> 'x \<Rightarrow> cell list \<Rightarrow>
   py_error + ('w store \<times> ref)" where
  "Ridge_fit fit st self X y = and_then (fit X y) (\<lambda>w. Inr (st[self := Some w], self))"

text \<open>\<^verbatim>\<open>model.predict(X)\<close>: the state of \<^verbatim>\<open>model\<close> is read from the store at the time of
  the call; an estimator that was never fitted raises (\<^verbatim>\<open>NotFittedError\<close>, a
  \<^verbatim>\<open>ValueError\<close>).\<close>

definition Ridge_predict ::
  "('w \<Rightarrow> 'x \<Rightarrow> py_error + 's) \<Rightarrow> 'w store \<Rightarrow> ref \<Rightarrow> 'x \<Rightarrow> py_error + 's" where
  "Ridge_predict predict st self X =
     (case st ! self of None \<Rightarrow> Inl ValueError | Some w \<Rightarrow> predict w X)"

text \<open>\<^verbatim>\<open>Tfidfize\<close>: each call makes its own vectorizer and returns it with the matrix.\<close>

definition Tfidfize ::
  "(cell list \<Rightarrow> py_error + ('x \<times> 'v)) \<Rightarrow> frame \<Rightarrow> py_error + ('x \<times> 'v)" where
  "Tfidfize fit_transform df =
     (let comment = (if has_col df ''comment'' then ''comment'' else ''comment_text'') in
      and_then (get_col df comment) (\<lambda>comments. fit_transform comments))"

definition TfidfAndPredict ::
  "('v \<Rightarrow> cell list \<Rightarrow> py_error + 'x) \<Rightarrow> ('w \<Rightarrow> 'x \<Rightarrow> py_error + 's) \<Rightarrow> 'w store \<Rightarrow>
   'v \<Rightarrow> ref \<Rightarrow> frame \<Rightarrow> frame \<Rightarrow> py_error + ('s \<times> 's)" where
  "TfidfAndPredict transform predict st tfidfer model train test =
     and_then (get_col train ''comment_text'') (\<lambda>train_comments.
     and_then (transform tfidfer train_comments) (\<lambda>tfidf_train.
     and_then (get_col test ''comment_text'') (\<lambda>test_comments.
     and_then (transform tfidfer test_comments) (\<lambda>tfidf_test.
     and_then (Ridge_predict predict st model tfidf_train) (\<lambda>train_scores.
     and_then (Ridge_predict predict st model tfidf_test) (\<lambda>test_scores.
     Inr (train_scores, test_scores)))))))"

text \<open>
  The part of \<^verbatim>\<open>main\<close> from the three \<^verbatim>\<open>Tfidfize\<close> calls to the three
  \<^verbatim>\<open>TfidfAndPredict\<close> calls, in the order of the source. The arguments are the three
  tables that \<^verbatim>\<open>JoinAndSanitize\<close> returned and the train and test tables that
  \<^verbatim>\<open>Sanitize\<close> returned. The result is the three model variables, the store after the
  fits, and the six score columns.
\<close>

record ('w, 's) main_state =
  model_toxic :: ref
  model_attack :: ref
  model_aggression :: ref
  estimators :: "'w store"
  toxic_scores :: "'s \<times> 's"
  attack_scores :: "'s \<times> 's"
  aggression_scores :: "'s \<times> 's"

definition main ::
  "(cell list \<Rightarrow> py_error + ('x \<times> 'v)) \<Rightarrow> ('v \<Rightarrow> cell list \<Rightarrow> py_error + 'x) \<Rightarrow>
   ('x \<Rightarrow> cell list \<Rightarrow> py_error + 'm) \<Rightarrow> ('x \<Rightarrow> cell list \<Rightarrow> py_error + 'w) \<Rightarrow>
   ('w \<Rightarrow> 'x \<Rightarrow> py_error + 's) \<Rightarrow>
   frame \<Rightarrow> frame \<Rightarrow> frame \<Rightarrow> frame \<Rightarrow> frame \<Rightarrow> py_error + ('w, 's) main_state" where
  "main fit_transform transform cross_val_score fit predict toxic attack aggression train test =
     and_then (Tfidfize fit_transform toxic) (\<lambda>(X_toxic, tfidfer_toxic).
     and_then (get_col toxic ''toxicity'') (\<lambda>y_toxic.
     and_then (Tfidfize fit_transform attack) (\<lambda>(X_attack, tfidfer_attack).
     and_then (get_col attack ''attack'') (\<lambda>y_attack.
     and_then (Tfidfize fit_transform aggression) (\<lambda>(X_aggression, tfidfer_aggression).
     and_then (get_col aggression ''aggression'') (\<lambda>y_aggression.
     (let (st0, ridge) = Ridge [] in
     and_then (cross_val_score X_toxic y_toxic) (\<lambda>mse_toxic.
     and_then (cross_val_score X_attack y_attack) (\<lambda>mse_attack.
     and_then (cross_val_score X_aggression y_aggression) (\<lambda>mse_aggression.
     and_then (Ridge_fit fit st0 ridge X_toxic y_toxic) (\<lambda>(st1, model_toxic').
     and_then (Ridge_fit fit st1 ridge X_attack y_attack) (\<lambda>(st2, model_attack').
     and_then (Ridge_fit fit st2 ridge X_aggression y_aggression) (\<lambda>(st3, model_aggression').
     and_then (TfidfAndPredict transform predict st3 tfidfer_toxic model_toxic' train test)
       (\<lambda>toxic_scores'.
     and_then (TfidfAndPredict transform predict st3 tfidfer_attack model_attack' train test)
       (\<lambda>attack_scores'.
     and_then (TfidfAndPredict transform predict st3 tfidfer_aggression model_aggression'
                 train test)
       (\<lambda>aggression_scores'.
     Inr \<lparr>model_toxic = model_toxic',
          model_attack = model_attack',
          model_aggression = model_aggression',
          estimators = st3,
          toxic_scores = toxic_scores',
          attack_scores = attack_scores',
          aggression_scores = aggression_scores'\<rparr>))))))))))))))))"

subsection \<open>\<^verbatim>\<open>JoinAndSanitize\<close> (feature\_engineering.py)\<close>

text \<open>
  \<^verbatim>\<open>df.set_index(name)\<close>: a new frame whose index is the named column, without that
  column; a \<^verbatim>\<open>KeyError\<close> when there is no such column.
\<close>

definition set_index :: "frame \<Rightarrow> string \<Rightarrow> py_error + frame" where
  "set_index df name =
     and_then (get_col df name)
       (\<lambda>keys. Inr \<lparr>idx = keys, cols = filter (\<lambda>(n, c). n \<noteq> name) (cols df)\<rparr>)"

text \<open>
  The mean pandas takes of the cells of a group: the missing cells are skipped, and a group
  without a number has the mean \<^verbatim>\<open>NaN\<close>. pandas computes the mean of the numbers of a
  group, in the order of the rows, in \<^verbatim>\<open>float64\<close> arithmetic; that function is the
  parameter \<open>fmean\<close>. A number cell holds a finite \<^verbatim>\<open>float64\<close> or \<^verbatim>\<open>int64\<close> value.
\<close>

definition numbers :: "cell list \<Rightarrow> rat list" where
  "numbers cs = concat (map (\<lambda>c. case c of Num q \<Rightarrow> [q] | _ \<Rightarrow> []) cs)"

definition mean_cells :: "(rat list \<Rightarrow> rat) \<Rightarrow> cell list \<Rightarrow> cell" where
  "mean_cells fmean cs = (if numbers cs = [] then NaN else Num (fmean (numbers cs)))"

text \<open>The mean in exact arithmetic; it is what pandas computes where no rounding takes
  place, as on the values of the examples.\<close>

definition mean :: "rat list \<Rightarrow> rat" where
  "mean xs = sum_list xs / of_nat (length xs)"

text \<open>The cells of a column in the rows whose key is \<open>k\<close>.\<close>

definition group_cells :: "cell list \<Rightarrow> cell list \<Rightarrow> cell \<Rightarrow> cell list" where
  "group_cells keys col k = map snd (filter (\<lambda>(k', v). k' = k) (zip keys col))"

definition is_str :: "cell \<Rightarrow> bool" where
  "is_str c = (case c of Str s \<Rightarrow> True | _ \<Rightarrow> False)"

text \<open>
  The columns \<^verbatim>\<open>mean\<close> aggregates are those of a numeric dtype; the others are left out
  of the result (pandas 1.x). In a frame that \<^verbatim>\<open>read_csv\<close> made, a column has the dtype
  \<^verbatim>\<open>object\<close> when it holds a string and when it has no cells at all, and a numeric dtype
  otherwise.
\<close>

definition numeric_dtype :: "cell list \<Rightarrow> bool" where
  "numeric_dtype c = (c \<noteq> [] \<and> \<not> (\<exists>v \<in> set c. is_str v))"

text \<open>
  The keys of \<^verbatim>\<open>df.groupby([name])\<close>: the cells of the column \<^verbatim>\<open>name\<close>. When there is
  no such column and the frame has exactly one row, the list \<^verbatim>\<open>[name]\<close> has the length of
  the frame and pandas takes it for the group labels of the rows, so that the one row has
  the key \<^verbatim>\<open>name\<close>; for any other number of rows a missing column is a \<^verbatim>\<open>KeyError\<close>.
\<close>

definition groupby_keys :: "frame \<Rightarrow> string \<Rightarrow> py_error + cell list" where
  "groupby_keys df name =
     (if has_col df name then get_col df name
      else if length (idx df) = 1 then Inr [Str (py name)]
      else Inl KeyError)"

text \<open>
  \<^verbatim>\<open>df.groupby([name]).mean()\<close>: a new frame with one row for each key that occurs (rows
  with a missing key are left out), indexed by the keys, and one column for each other
  column of a numeric dtype, with the means of the groups. pandas sorts the keys; here they
  are left unsorted, which the join below, looking rows up by key, does not see.
\<close>

definition groupby_mean :: "(rat list \<Rightarrow> rat) \<Rightarrow> frame \<Rightarrow> string \<Rightarrow> py_error + frame" where
  "groupby_mean fmean df name =
     and_then (groupby_keys df name)
       (\<lambda>keys.
          let ks = remdups (filter (\<lambda>k. k \<noteq> NaN) keys);
              numeric = filter (\<lambda>(n, c). n \<noteq> name \<and> numeric_dtype c) (cols df)
          in Inr \<lparr>idx = ks,
                  cols = map (\<lambda>(n, c). (n, map (\<lambda>k. mean_cells fmean (group_cells keys c k)) ks))
                           numeric\<rparr>)"

text \<open>
  \<^verbatim>\<open>left.join(right)\<close> for a \<^verbatim>\<open>right\<close> whose index has no repeated label, as the
  result of \<^verbatim>\<open>groupby\<close> has: a left join on the index. The rows of the result are the rows
  of \<^verbatim>\<open>left\<close>, in their order; the columns of \<^verbatim>\<open>right\<close> are added, each row with the cells
  of the row of \<^verbatim>\<open>right\<close> that has the same label, or \<^verbatim>\<open>NaN\<close> when there is none. A column
  name that both frames have raises \<^verbatim>\<open>ValueError\<close>.
\<close>

definition lookup_row :: "cell list \<Rightarrow> cell list \<Rightarrow> cell \<Rightarrow> cell" where
  "lookup_row labels col k = (case map_of (zip labels col) k of None \<Rightarrow> NaN | Some v \<Rightarrow> v)"

definition join :: "frame \<Rightarrow> frame \<Rightarrow> py_error + frame" where
  "join left right =
     (if \<exists>n \<in> set (map fst (cols left)). n \<in> set (map fst (cols right)) then Inl ValueError
      else Inr \<lparr>idx = idx left,
                cols = cols left
                  @ map (\<lambda>(n, c). (n, map (lookup_row (idx right) c) (idx left))) (cols right)\<rparr>)"

text \<open>
  \<^verbatim>\<open>JoinAndSanitize\<close>. \<^verbatim>\<open>set_index\<close>, \<^verbatim>\<open>groupby\<close>, \<^verbatim>\<open>mean\<close> and \<^verbatim>\<open>join\<close> each make
  a new frame, so \<^verbatim>\<open>Sanitize\<close> is applied to a frame that no caller holds; the function
  is modelled on frame values. The receiver \<^verbatim>\<open>cmt.set_index('rev_id')\<close> is evaluated
  before the argument of \<^verbatim>\<open>join\<close>. The first argument is the \<^verbatim>\<open>float64\<close> mean of
  pandas.
\<close>

definition JoinAndSanitize :: "(rat list \<Rightarrow> rat) \<Rightarrow> frame \<Rightarrow> frame \<Rightarrow> py_error + frame" where
  "JoinAndSanitize fmean cmt annot =
     and_then (set_index cmt ''rev_id'') (\<lambda>indexed.
     and_then (groupby_mean fmean annot ''rev_id'') (\<lambda>means.
     and_then (join indexed means) (\<lambda>df.
     Sanitize_frame df)))"

subsection \<open>Auxiliary notions\<close>

text \<open>The count a counting dictionary holds for a word, 0 when the word is not a key.\<close>

definition cnt :: "(ustr \<times> nat) list \<Rightarrow> ustr \<Rightarrow> nat" where
  "cnt wc w = (case map_of wc w of None \<Rightarrow> 0 | Some n \<Rightarrow> n)"

text \<open>Notions for stating what the sanitizers do to a frame.\<close>

definition is_num :: "cell \<Rightarrow> bool" where
  "is_num c = (case c of Num q \<Rightarrow> True | _ \<Rightarrow> False)"

definition filled :: "ustr \<Rightarrow> cell \<Rightarrow> ustr" where
  "filled v c = (case c of Str s \<Rightarrow> s | _ \<Rightarrow> v)"

definition comment_of :: "frame \<Rightarrow> string" where
  "comment_of df = (if has_col df ''comment'' then ''comment'' else ''comment_text'')"

text \<open>
  Notions for stating what a text that \<^verbatim>\<open>Sanitize\<close> returns looks like. \<open>wnf ps pb s\<close>:
  the only space character in \<open>s\<close> is the space, no two spaces follow each other and no
  exclamation mark follows another (\<open>ps\<close>, \<open>pb\<close>: the character before \<open>s\<close> was a space, an
  exclamation mark); \<open>nf\<close>: moreover the text neither starts nor ends with a space.
\<close>

fun wnf :: "bool \<Rightarrow> bool \<Rightarrow> ustr \<Rightarrow> bool" where
  "wnf ps pb [] = True"
| "wnf ps pb (c # cs) =
     (if c = SPACE then \<not> ps \<and> wnf True False cs
      else \<not> is_space c \<and> \<not> pb \<and> wnf False (c = BANG) cs)"

definition tail_space :: "ustr \<Rightarrow> ustr" where
  "tail_space d = (if d \<noteq> [] \<and> last d = BANG then [SPACE] else [])"

definition nf :: "ustr \<Rightarrow> bool" where
  "nf d = (wnf False False d \<and> (d = [] \<or> (\<not> is_space (hd d) \<and> \<not> is_space (last d))))"

text \<open>The characters of a sanitized text: lower-case letters, the space and the
  exclamation mark.\<close>

definition alpha :: "nat \<Rightarrow> bool" where
  "alpha c = (is_lower c \<or> c = SPACE \<or> c = BANG)"

text \<open>\<open>nlu pl s\<close>: every \<^verbatim>\<open>u\<close> or \<^verbatim>\<open>U\<close> of \<open>s\<close> has a letter right before or right after it
  (\<open>pl\<close>: the character before \<open>s\<close> was a letter).\<close>

definition hd_letter :: "ustr \<Rightarrow> bool" where
  "hd_letter s = (case s of [] \<Rightarrow> False | d # _ \<Rightarrow> is_letter d)"

fun nlu :: "bool \<Rightarrow> ustr \<Rightarrow> bool" where
  "nlu pl [] = True"
| "nlu pl (c # cs) = (((c = 117 \<or> c = 85) \<longrightarrow> pl \<or> hd_letter cs) \<and> nlu (is_letter c) cs)"

text \<open>A text without the four code points beyond ASCII that \<^verbatim>\<open>[a-z]\<close> matches under
  \<^verbatim>\<open>re.IGNORECASE\<close> (U+0130, U+0131, U+017F, U+212A).\<close>

definition plain :: "ustr \<Rightarrow> bool" where
  "plain s = (\<forall>c \<in> set s. c \<noteq> 304 \<and> c \<noteq> 305 \<and> c \<noteq> 383 \<and> c \<noteq> 8490)"

text \<open>The test of one step of \<open>sub_u_from\<close>, and what is known of the character before.\<close>

definition lone_u :: "nat option \<Rightarrow> nat \<Rightarrow> ustr \<Rightarrow> bool" where
  "lone_u prev c cs =
     ((c = 117 \<or> c = 85)
      \<and> \<not> (case prev of None \<Rightarrow> False | Some p \<Rightarrow> is_letter_ic p)
      \<and> \<not> (case cs of [] \<Rightarrow> False | d # _ \<Rightarrow> is_letter_ic d))"

definition prev_letter :: "nat option \<Rightarrow> bool" where
  "prev_letter prev = (case prev of None \<Rightarrow> False | Some p \<Rightarrow> is_letter p)"

definition prev_plain :: "nat option \<Rightarrow> bool" where
  "prev_plain prev = (case prev of None \<Rightarrow> True | Some p \<Rightarrow> is_letter_ic p = is_letter p)"

section \<open>Results\<close>

subsection \<open>Evaluation of the text functions on literals\<close>

lemmas text_eval =
  py_def is_upper_def is_lower_def is_letter_def is_letter_ic_def is_space_def
  lower_char_def lower_def strip_def replace_def starts_with_def sub_http_def sub_email_def
  sub_u_def sub_not_letter_bang_def sub_not_letter_def sub_bangs_def sub_spaces_def

lemmas frame_eval =
  and_then_def update_col_def get_col_def set_col_def has_col_def fillna_def

subsection \<open>The end-to-end sanitization example\<close>



subsection \<open>The vocabulary\<close>

lemma replicate_numeral: "replicate (numeral k) x = x # replicate (pred_numeral k) x"
  by (simp add: numeral_eq_Suc)

lemmas tokenizer_eval =
  train_tokenizer_def init_def fit_on_texts_def text_to_word_sequence_def is_filter_def
  count_word_def texts_to_sequences_def encode_word_def

lemma fst_bump: "map fst (map (\<lambda>(k, n). if k = w then (k, n + 1) else (k, n)) wc) = map fst wc"
  by (induction wc) auto

lemma keys_count_word: "set (map fst (count_word w wc)) = insert w (set (map fst wc))"
proof (cases "w \<in> set (map fst wc)")
  case True
  then show ?thesis unfolding count_word_def by (simp only: if_True fst_bump) auto
next
  case False
  then show ?thesis unfolding count_word_def by simp
qed

lemma distinct_count_word: "distinct (map fst wc) \<Longrightarrow> distinct (map fst (count_word w wc))"
  unfolding count_word_def by (simp add: fst_bump del: map_map)

lemma map_of_bump:
  "map_of (map (\<lambda>(k, n). if k = w then (k, n + 1) else (k, n)) wc) v =
     (if v = w then map_option Suc (map_of wc v) else map_of wc v)"
  by (induction wc) auto

lemma cnt_count_word: "cnt (count_word w wc) v = cnt wc v + (if v = w then 1 else 0)"
proof (cases "w \<in> set (map fst wc)")
  case True
  then obtain n where "map_of wc w = Some n"
    by (metis map_of_eq_None_iff not_Some_eq set_map)
  with True show ?thesis
    unfolding count_word_def cnt_def by (simp add: map_of_bump del: set_map)
next
  case False
  then have "map_of wc w = None" by (simp add: map_of_eq_None_iff)
  with False show ?thesis
    unfolding count_word_def cnt_def by (simp add: map_add_def split: option.splits)
qed

lemma fold_count_word:
  "distinct (map fst wc) \<Longrightarrow>
     distinct (map fst (fold count_word ws wc))
   \<and> set (map fst (fold count_word ws wc)) = set (map fst wc) \<union> set ws
   \<and> (\<forall>v. cnt (fold count_word ws wc) v = cnt wc v + count_list ws v)"
proof (induction ws arbitrary: wc)
  case Nil
  then show ?case by simp
next
  case (Cons w ws)
  have d: "distinct (map fst (count_word w wc))"
    using Cons.prems by (rule distinct_count_word)
  from Cons.IH [OF d] show ?case
    by (simp add: keys_count_word cnt_count_word del: set_map) 
qed

lemma fold_texts:
  "fold (\<lambda>t wc. fold count_word (f t) wc) texts wc = fold count_word (concat (map f texts)) wc"
  by (induction texts arbitrary: wc) simp_all

lemma cnt_entry: "distinct (map fst wc) \<Longrightarrow> e \<in> set wc \<Longrightarrow> cnt wc (fst e) = snd e"
  by (cases e) (simp add: cnt_def)

lemma sorted_desc:
  "sorted_wrt (\<ge>) (map snd (sort_key (\<lambda>wc. - int (snd wc)) (wcs :: (ustr \<times> nat) list)))"
proof -
  have "sorted (map (\<lambda>wc. - int (snd wc)) (sort_key (\<lambda>wc. - int (snd wc)) wcs))"
    by (rule sorted_sort_key)
  then show ?thesis
    by (simp add: sorted_wrt_map)
qed

lemma fit_on_texts_fresh:
  fixes tok :: tokenizer and texts :: "ustr list"
  defines "ws \<equiv> concat (map text_to_word_sequence texts)"
  defines "wi \<equiv> word_index (fit_on_texts tok texts)"
  assumes fresh: "word_counts tok = []"
  shows "map snd wi = [1 ..< Suc (length wi)]"
    and "distinct (map fst wi)"
    and "set (map fst wi) = set ws"
    and "sorted_wrt (\<ge>) (map (count_list ws) (map fst wi))"
proof -
  define wc where "wc = fold count_word ws []"
  define srt where "srt = sort_key (\<lambda>wc. - int (snd wc)) wc"
  have wi: "wi = zip (map fst srt) [1 ..< Suc (length srt)]"
    by (simp add: wi_def fit_on_texts_def Let_def fresh fold_texts srt_def wc_def ws_def)
  have fc: "distinct (map fst wc)" "set (map fst wc) = set ws"
    "\<And>v. cnt wc v = count_list ws v"
    using fold_count_word [of "[]" ws] by (simp_all add: wc_def cnt_def)
  have len: "length wi = length srt" by (simp add: wi del: upt_Suc)
  have fst_wi: "map fst wi = map fst srt"
    unfolding wi by (rule map_fst_zip) (simp del: upt_Suc)
  have "map snd wi = [1 ..< Suc (length srt)]"
    unfolding wi by (rule map_snd_zip) (simp del: upt_Suc)
  then show "map snd wi = [1 ..< Suc (length wi)]"
    by (simp only: len)
  have "distinct wc \<and> inj_on fst (set wc)"
    using fc(1) by (simp add: distinct_map)
  then show "distinct (map fst wi)"
    unfolding fst_wi by (simp add: distinct_map srt_def)
  show "set (map fst wi) = set ws"
    unfolding fst_wi using fc(2) by (simp add: srt_def)
  have "count_list ws (fst e) = snd e" if "e \<in> set srt" for e
  proof -
    from that have "e \<in> set wc" by (simp add: srt_def)
    from cnt_entry [OF fc(1) this] show ?thesis by (simp add: fc(3))
  qed
  then have eq: "map (count_list ws) (map fst srt) = map snd srt"
    by simp
  show "sorted_wrt (\<ge>) (map (count_list ws) (map fst wi))"
    unfolding fst_wi eq unfolding srt_def by (rule sorted_desc)
qed

text \<open>
  C6, counterexample. With a cap of 2 the exposed mapping built from
  \<open>["a a a", "b b", "c"]\<close> still holds three tokens.
\<close>

theorem C6_cap_counterexample:
  "\<not> length (word_index (tokenizer
        (train_tokenizer (init 2 4 False True) [py ''a a a'', py ''b b'', py ''c''] []))) \<le> 2"
  by (simp add: tokenizer_eval text_eval)

text \<open>
  C6, amended. After vocabulary construction on a new \<^verbatim>\<open>TextPreprocessor\<close> from
  ASCII texts (code points below 128, where \<^verbatim>\<open>str.lower\<close> changes \<^verbatim>\<open>A\<close> to \<^verbatim>\<open>Z\<close>
  only; the texts \<^verbatim>\<open>load_and_tokenize\<close> passes are such), the exposed mapping \<^verbatim>\<open>word_index\<close> assigns the dense indices \<open>1, \<dots>, n\<close>, so that no token
  maps to 0, in the order of descending corpus frequency; its tokens are pairwise different
  and are all the tokens of the corpus, whatever \<^verbatim>\<open>max_nb_words\<close> is (the cap is applied
  when texts are encoded, not to the mapping). With cap 3 over \<open>["a a a", "b b", "c"]\<close> the
  mapping is \<open>{a:1, b:2, c:3}\<close>.
\<close>

theorem C6_word_index:
  assumes "\<forall>t \<in> set (if cd then train @ test else train). \<forall>c \<in> set t. c < 128"
  shows
  "(let wi = word_index (tokenizer (train_tokenizer (init n L cd uef) train test));
        ws = concat (map text_to_word_sequence (if cd then train @ test else train))
    in map snd wi = [1 ..< Suc (length wi)]
       \<and> 0 \<notin> set (map snd wi)
       \<and> distinct (map fst wi)
       \<and> set (map fst wi) = set ws
       \<and> sorted_wrt (\<ge>) (map (count_list ws) (map fst wi)))
   \<and> word_index (tokenizer
        (train_tokenizer (init 3 4 False True) [py ''a a a'', py ''b b'', py ''c''] []))
     = [(py ''a'', 1), (py ''b'', 2), (py ''c'', 3)]"
proof -
  define tok :: tokenizer where "tok = \<lparr>num_words = n, word_counts = [], word_index = []\<rparr>"
  define texts where "texts = (if cd then train @ test else train)"
  define wi where "wi = word_index (fit_on_texts tok texts)"
  define ws where "ws = concat (map text_to_word_sequence texts)"
  have fresh: "word_counts tok = []" by (simp add: tok_def)
  have wi_eq: "word_index (tokenizer (train_tokenizer (init n L cd uef) train test)) = wi"
    by (simp add: train_tokenizer_def init_def wi_def tok_def texts_def)
  note fit = fit_on_texts_fresh [OF fresh, of texts, folded wi_def ws_def]
  have zero: "0 \<notin> set (map snd wi)"
    by (simp only: fit(1)) (simp del: upt_Suc)
  have ex: "word_index (tokenizer
        (train_tokenizer (init 3 4 False True) [py ''a a a'', py ''b b'', py ''c''] []))
     = [(py ''a'', 1), (py ''b'', 2), (py ''c'', 3)]"
    by (simp add: tokenizer_eval text_eval)
  show ?thesis
    unfolding Let_def wi_eq texts_def [symmetric] ws_def [symmetric]
    using fit zero ex by simp
qed

theorem C6_word_index_witness:
  "set (py ''a a a'') \<union> set (py ''b b'') \<union> set (py ''c'') = {97, 32, 98, 99}
   \<and> word_index (tokenizer
        (train_tokenizer (init 3 4 False True) [py ''a a a'', py ''b b'', py ''c''] []))
     = [(py ''a'', 1), (py ''b'', 2), (py ''c'', 3)]"
proof -
  have a: "\<forall>t \<in> set (if False then [py ''a a a'', py ''b b'', py ''c''] @ []
                   else [py ''a a a'', py ''b b'', py ''c'']). \<forall>c \<in> set t. c < 128"
    by (simp add: py_def)
  from C6_word_index [OF a, of 3 4 True]
  have "word_index (tokenizer
        (train_tokenizer (init 3 4 False True) [py ''a a a'', py ''b b'', py ''c''] []))
     = [(py ''a'', 1), (py ''b'', 2), (py ''c'', 3)]"
    by simp
  then show ?thesis by (simp add: py_def insert_commute)
qed

subsection \<open>Encoding one sentence\<close>

text \<open>
  C7, at a failing input. A preprocessor with \<^verbatim>\<open>max_nb_words = 5\<close> and
  \<^verbatim>\<open>max_padding_length = 4\<close>, trained on \<open>["a b a"]\<close>, encodes the sentence \<open>"a b"\<close>
  character by character (one row per character, the space included) and pads every row to
  \<^verbatim>\<open>max_nb_words = 5\<close>: the result is three rows of length 5, not one sequence of length 4.
\<close>

theorem C7_single_sentence_rows:
  "tokenize_single_sentence (train_tokenizer (init 5 4 False True) [py ''a b a''] []) (py ''a b'')
     = Inr [[0, 0, 0, 0, 1], [0, 0, 0, 0, 0], [0, 0, 0, 0, 2]]"
  by (simp add: tokenize_single_sentence_def tokenizer_eval text_eval
        pad_sequences_def pad_row_def assign_last_def slice_last_def as_int32_def
        replicate_numeral)

subsection \<open>\<^verbatim>\<open>load_and_tokenize\<close> without a sample index\<close>

lemma and_then_Inr: "and_then r f = Inr v \<Longrightarrow> \<exists>x. r = Inr x \<and> f x = Inr v"
  by (cases r) (simp_all add: and_then_def)

lemma load_and_tokenize_None: "load_and_tokenize rc gs self cl None \<noteq> Inr r"
  unfolding load_and_tokenize_def Let_def
  by (auto dest!: and_then_Inr split: if_splits)

lemmas load_eval =
  load_and_tokenize_def values_of_def text_normalization_frame_def frame_eval
  tokenizer_eval text_eval pad_sequences_def pad_row_def assign_last_def slice_last_def
  as_int32_def replicate_numeral

text \<open>
  C10. Whatever the data files hold, whatever \<^verbatim>\<open>get_sentence\<close> does and whatever the
  configuration is, a call of \<^verbatim>\<open>load_and_tokenize\<close> with \<^verbatim>\<open>sample_index = None\<close> ends
  in an exception and produces no result. On a small training and test file, where every
  step before the \<^verbatim>\<open>return\<close> succeeds, the exception is the \<^verbatim>\<open>UnboundLocalError\<close> of
  the \<^verbatim>\<open>return\<close>, and the same call with \<^verbatim>\<open>sample_index = 0\<close> returns its tuple.
\<close>

theorem C10_no_result_without_sample_index:
  "(\<exists>e. load_and_tokenize read_csv get_sentence self class_list None = Inl e)
   \<and> load_and_tokenize
       (\<lambda>path. if path = ''./data/train.csv''
               then Inr \<lparr>idx = [Num 0, Num 1],
                         cols = [(''comment_text'', [Str (py ''You are GREAT''), NaN]),
                                 (''toxic'', [Num 0, Num 1])]\<rparr>
               else Inr \<lparr>idx = [Num 0],
                         cols = [(''comment_text'', [Str (py ''are you?'')])]\<rparr>)
       (\<lambda>i cl df. Inr i) (init 10 3 False False) [''toxic''] None
     = Inl UnboundLocalError
   \<and> load_and_tokenize
       (\<lambda>path. if path = ''./data/train.csv''
               then Inr \<lparr>idx = [Num 0, Num 1],
                         cols = [(''comment_text'', [Str (py ''You are GREAT''), NaN]),
                                 (''toxic'', [Num 0, Num 1])]\<rparr>
               else Inr \<lparr>idx = [Num 0],
                         cols = [(''comment_text'', [Str (py ''are you?'')])]\<rparr>)
       (\<lambda>i cl df. Inr i) (init 10 3 False False) [''toxic''] (Some 0)
     = Inr (\<lparr>max_nb_words = 10, max_padding_length = 3, combine_data = False,
              use_extra_features = False,
              tokenizer =
                \<lparr>num_words = 10,
                 word_counts = [(py ''you'', 1), (py ''are'', 1), (py ''great'', 1),
                                (py ''unk'', 1)],
                 word_index = [(py ''you'', 1), (py ''are'', 2), (py ''great'', 3),
                               (py ''unk'', 4)]\<rparr>\<rparr>,
            NoAux [[1, 2, 3], [0, 0, 4]] [[Num 0], [Num 1]] [[0, 2, 1]]
              [(py ''you'', 1), (py ''are'', 2), (py ''great'', 3), (py ''unk'', 4)] 0)"
proof -
  have "\<exists>e. load_and_tokenize read_csv get_sentence self class_list None = Inl e"
    using load_and_tokenize_None [of read_csv get_sentence self class_list]
    by (cases "load_and_tokenize read_csv get_sentence self class_list None") auto
  moreover have "load_and_tokenize
       (\<lambda>path. if path = ''./data/train.csv''
               then Inr \<lparr>idx = [Num 0, Num 1],
                         cols = [(''comment_text'', [Str (py ''You are GREAT''), NaN]),
                                 (''toxic'', [Num 0, Num 1])]\<rparr>
               else Inr \<lparr>idx = [Num 0],
                         cols = [(''comment_text'', [Str (py ''are you?'')])]\<rparr>)
       (\<lambda>i cl df. Inr i) (init 10 3 False False) [''toxic''] None
     = Inl UnboundLocalError"
    by (simp add: load_eval)
  moreover have "load_and_tokenize
       (\<lambda>path. if path = ''./data/train.csv''
               then Inr \<lparr>idx = [Num 0, Num 1],
                         cols = [(''comment_text'', [Str (py ''You are GREAT''), NaN]),
                                 (''toxic'', [Num 0, Num 1])]\<rparr>
               else Inr \<lparr>idx = [Num 0],
                         cols = [(''comment_text'', [Str (py ''are you?'')])]\<rparr>)
       (\<lambda>i cl df. Inr i) (init 10 3 False False) [''toxic''] (Some 0)
     = Inr (\<lparr>max_nb_words = 10, max_padding_length = 3, combine_data = False,
              use_extra_features = False,
              tokenizer =
                \<lparr>num_words = 10,
                 word_counts = [(py ''you'', 1), (py ''are'', 1), (py ''great'', 1),
                                (py ''unk'', 1)],
                 word_index = [(py ''you'', 1), (py ''are'', 2), (py ''great'', 3),
                               (py ''unk'', 4)]\<rparr>\<rparr>,
            NoAux [[1, 2, 3], [0, 0, 4]] [[Num 0], [Num 1]] [[0, 2, 1]]
              [(py ''you'', 1), (py ''are'', 2), (py ''great'', 3), (py ''unk'', 4)] 0)"
    by (simp add: load_eval)
  ultimately show ?thesis by blast
qed

subsection \<open>Padding and truncation\<close>

lemma as_int32_small: "t < 2 ^ 31 \<Longrightarrow> as_int32 t = Inr (int t)"
proof -
  assume t: "t < 2 ^ 31"
  then have "int t < 2 ^ 31" by (metis of_nat_less_iff of_nat_numeral of_nat_power)
  then have "(int t + 2 ^ 31) mod 2 ^ 32 = int t + 2 ^ 31" by simp
  moreover have "t < 2 ^ 63" using t by (rule less_trans) simp
  ultimately show ?thesis by (simp add: as_int32_def)
qed

lemma asarray_int32_small:
  "\<forall>t \<in> set ts. t < 2 ^ 31 \<Longrightarrow> asarray_int32 ts = Inr (map int ts)"
  by (induction ts) (simp_all add: as_int32_small)

lemma pad_row_pos:
  assumes "0 < L" and "\<forall>t \<in> set s. t < 2 ^ 31"
  shows "pad_row L s = Inr (padded L s)"
proof (cases "s = []")
  case True
  then show ?thesis by (simp add: pad_row_def padded_def)
next
  case False
  have "\<forall>t \<in> set (slice_last s L). t < 2 ^ 31"
    using assms(2) by (auto simp: slice_last_def dest: in_set_dropD)
  then have "asarray_int32 (slice_last s L) = Inr (map int (slice_last s L))"
    by (rule asarray_int32_small)
  with False assms(1) show ?thesis
    by (auto simp: pad_row_def assign_last_def slice_last_def padded_def Let_def min_def)
qed

lemma pad_rows_pos:
  "0 < L \<Longrightarrow> \<forall>s \<in> set ss. \<forall>t \<in> set s. t < 2 ^ 31 \<Longrightarrow>
   pad_rows L ss = Inr (map (padded L) ss)"
  by (induction ss) (simp_all add: pad_row_pos)

lemma pad_row_zero:
  assumes "\<forall>t \<in> set s. t < 2 ^ 31"
  shows "pad_row 0 s = (if 2 \<le> length s then Inl ValueError else Inr [])"
proof -
  have a: "asarray_int32 s = Inr (map int s)"
    using assms by (rule asarray_int32_small)
  show ?thesis
  proof (cases "length s \<le> 1")
    case True
    then consider "s = []" | "length s = 1" by (cases s) auto
    then show ?thesis
      using a by cases (auto simp: pad_row_def assign_last_def slice_last_def Let_def)
  next
    case False
    then have "2 \<le> length s" "s \<noteq> []" "length s \<noteq> 1" by auto
    then show ?thesis
      using a by (simp add: pad_row_def assign_last_def slice_last_def Let_def)
  qed
qed

lemma pad_rows_zero:
  "\<forall>s \<in> set ss. \<forall>t \<in> set s. t < 2 ^ 31 \<Longrightarrow>
   pad_rows 0 ss = (if \<exists>s \<in> set ss. 2 \<le> length s then Inl ValueError
                    else Inr (map (\<lambda>s. []) ss))"
  by (induction ss) (simp_all add: pad_row_zero)

lemma length_padded: "length (padded L s) = L"
  by (simp add: padded_def)

lemma padded_long: "L \<le> length s \<Longrightarrow> padded L s = map int (drop (length s - L) s)"
  by (simp add: padded_def)

lemma padded_short: "length s < L \<Longrightarrow> padded L s = replicate (L - length s) 0 @ map int s"
  by (simp add: padded_def)

lemmas pad_eval =
  pad_sequences_def pad_row_def assign_last_def slice_last_def as_int32_def

text \<open>
  C4, counterexample. With target length 0 the slice \<^verbatim>\<open>s[-0:]\<close> is the whole
  sequence, which does not fit a row of no cells: \<^verbatim>\<open>pad_sequences\<close> raises and there
  are no output rows at all.
\<close>

theorem C4_zero_length_counterexample:
  "pad_sequences [[5, 6, 7, 8, 9]] 0 = Inl ValueError"
  by (simp add: pad_eval)

text \<open>
  C4, amended. For every list of token sequences whose tokens are below \<open>2\<^sup>3\<^sup>1\<close> (the
  rows are \<^verbatim>\<open>int32\<close>) and every target length \<open>L \<ge> 1\<close>, \<^verbatim>\<open>pad_sequences\<close> returns one
  row per sequence, each of length exactly \<open>L\<close>: a sequence of at least \<open>L\<close> tokens keeps
  its trailing \<open>L\<close> tokens, a shorter one is left-padded with the index 0;
  \<open>[5,6,7,8,9]\<close> with \<open>L = 4\<close> becomes \<open>[6,7,8,9]\<close> and \<open>[5]\<close> becomes \<open>[0,0,0,5]\<close>. With
  \<open>L = 0\<close> the call raises \<^verbatim>\<open>ValueError\<close> when some sequence has two or more tokens, and
  returns one empty row per sequence otherwise.
\<close>

theorem C4_pad_sequences_rows:
  assumes "\<forall>s \<in> set seqs. \<forall>t \<in> set s. t < 2 ^ 31"
  shows "(0 < L \<longrightarrow>
           (\<exists>rows. pad_sequences seqs L = Inr rows
              \<and> length rows = length seqs
              \<and> (\<forall>i < length seqs.
                    length (rows ! i) = L
                  \<and> (L \<le> length (seqs ! i) \<longrightarrow>
                       rows ! i = map int (drop (length (seqs ! i) - L) (seqs ! i)))
                  \<and> (length (seqs ! i) < L \<longrightarrow>
                       rows ! i = replicate (L - length (seqs ! i)) 0 @ map int (seqs ! i)))))
         \<and> (L = 0 \<longrightarrow>
              pad_sequences seqs L
                = (if \<exists>s \<in> set seqs. 2 \<le> length s then Inl ValueError
                   else Inr (map (\<lambda>s. []) seqs)))
         \<and> pad_sequences [[5, 6, 7, 8, 9], [5]] 4 = Inr [[6, 7, 8, 9], [0, 0, 0, 5]]"
proof -
  have pos: "pad_sequences seqs L = Inr (map (padded L) seqs)" if "0 < L"
    unfolding pad_sequences_def using that assms by (rule pad_rows_pos)
  have zero: "pad_sequences seqs 0
                = (if \<exists>s \<in> set seqs. 2 \<le> length s then Inl ValueError
                   else Inr (map (\<lambda>s. []) seqs))"
    unfolding pad_sequences_def using assms by (rule pad_rows_zero)
  have ex: "pad_sequences [[5, 6, 7, 8, 9], [5]] 4 = Inr [[6, 7, 8, 9], [0, 0, 0, 5]]"
    by (simp add: pad_eval replicate_numeral)
  have "\<exists>rows. pad_sequences seqs L = Inr rows
              \<and> length rows = length seqs
              \<and> (\<forall>i < length seqs.
                    length (rows ! i) = L
                  \<and> (L \<le> length (seqs ! i) \<longrightarrow>
                       rows ! i = map int (drop (length (seqs ! i) - L) (seqs ! i)))
                  \<and> (length (seqs ! i) < L \<longrightarrow>
                       rows ! i = replicate (L - length (seqs ! i)) 0 @ map int (seqs ! i)))"
    if "0 < L"
    using pos [OF that] by (simp add: length_padded padded_long padded_short)
  with zero ex show ?thesis by blast
qed

theorem C4_pad_sequences_rows_witness:
  "(9::nat) < 2 ^ 31
   \<and> (0::nat) < 4
   \<and> pad_sequences [[5, 6, 7, 8, 9], [5]] 4 = Inr [[6, 7, 8, 9], [0, 0, 0, 5]]
   \<and> pad_sequences [[5], []] 0 = Inr [[], []]
   \<and> pad_sequences [[5], [6, 7]] 0 = Inl ValueError"
proof -
  have a: "\<forall>s \<in> set [[5, 6, 7, 8, 9], [5::nat]]. \<forall>t \<in> set s. t < 2 ^ 31" by simp
  have b: "\<forall>s \<in> set [[5], []::nat list]. \<forall>t \<in> set s. t < 2 ^ 31" by simp
  have c: "\<forall>s \<in> set [[5], [6, 7::nat]]. \<forall>t \<in> set s. t < 2 ^ 31" by simp
  from C4_pad_sequences_rows [OF a, of 4]
  have "pad_sequences [[5, 6, 7, 8, 9], [5]] 4 = Inr [[6, 7, 8, 9], [0, 0, 0, 5]]"
    by blast
  moreover from C4_pad_sequences_rows [OF b, of 0]
  have "pad_sequences [[5], []] 0 = Inr [[], []]"
    by simp
  moreover from C4_pad_sequences_rows [OF c, of 0]
  have "pad_sequences [[5], [6, 7]] 0 = Inl ValueError"
    by simp
  ultimately show ?thesis by simp
qed

subsection \<open>Frames and the sanitizers as frame updates\<close>

lemma apply_str_Str: "apply_str e f (map Str ss) = Inr (map Str (map f ss))"
  by (induction ss) simp_all

lemma fillna_no_num:
  "\<not> (\<exists>c \<in> set col. is_num c) \<Longrightarrow> fillna v col = map Str (map (filled v) col)"
  by (induction col) (auto simp: fillna_def is_num_def filled_def split: cell.splits)

lemma apply_str_num:
  "\<exists>c \<in> set col. is_num c \<Longrightarrow> apply_str e f (fillna v col) = Inl e"
proof (induction col)
  case Nil
  then show ?case by simp
next
  case (Cons c col)
  show ?case
  proof (cases c)
    case (Str s)
    with Cons have "apply_str e f (fillna v col) = Inl e" by (simp add: is_num_def)
    with Str show ?thesis by (simp add: fillna_def)
  next
    case (Num q)
    then show ?thesis by (simp add: fillna_def)
  next
    case NaN
    with Cons have "apply_str e f (fillna v col) = Inl e" by (simp add: is_num_def)
    with NaN show ?thesis by (simp add: fillna_def)
  qed
qed

lemma fst_replace_col: "map fst (replace_col n c xs) = map fst xs"
  by (induction xs) auto

lemma map_of_replace_col_same:
  "n \<in> set (map fst xs) \<Longrightarrow> map_of (replace_col n c xs) n = Some c"
  by (induction xs) force+

lemma map_of_replace_col_other:
  "m \<noteq> n \<Longrightarrow> map_of (replace_col n c xs) m = map_of xs m"
  by (induction xs) auto

lemma replace_col_append:
  "replace_col n c (xs @ ys) = replace_col n c xs @ replace_col n c ys"
  by (induction xs) auto

lemma replace_col_absent: "n \<notin> set (map fst xs) \<Longrightarrow> replace_col n c xs = xs"
  by (induction xs) auto

lemma replace_col_twice: "replace_col n c' (replace_col n c xs) = replace_col n c' xs"
  by (induction xs) auto

lemma get_set_col: "get_col (set_col df n c) n = Inr c"
proof (cases "has_col df n")
  case True
  then show ?thesis
    by (simp add: get_col_def set_col_def has_col_def map_of_replace_col_same del: set_map)
next
  case False
  then have "map_of (cols df) n = None" by (simp add: has_col_def map_of_eq_None_iff)
  with False show ?thesis by (simp add: get_col_def set_col_def map_add_def)
qed

lemma has_set_col: "has_col (set_col df n c) m = (has_col df m \<or> m = n)"
  by (cases "has_col df n")
     (auto simp: set_col_def has_col_def fst_replace_col simp del: set_map)

lemma set_set_col: "set_col (set_col df n c) n c' = set_col df n c'"
proof (cases "has_col df n")
  case True
  with has_set_col [of df n c n] show ?thesis
    by (simp add: set_col_def replace_col_twice)
next
  case False
  then have "n \<notin> set (map fst (cols df))" by (simp add: has_col_def)
  with False has_set_col [of df n c n] show ?thesis
    by (simp add: set_col_def replace_col_absent replace_col_append del: set_map)
qed

lemma update_set_col:
  "update_col n f (set_col df n c) = and_then (f c) (\<lambda>c'. Inr (set_col df n c'))"
  by (simp add: update_col_def get_set_col set_set_col and_then_def)


lemma update_col_first:
  "update_col n f df = and_then (get_col df n) (\<lambda>c. and_then (f c) (\<lambda>c'. Inr (set_col df n c')))"
  by (simp add: update_col_def)

lemma and_then_Inr_simp [simp]: "and_then (Inr v) f = f v"
  by (simp add: and_then_def)

lemma and_then_Inl_simp [simp]: "and_then (Inl e) f = Inl e"
  by (simp add: and_then_def)

lemma Sanitize_frame_eq:
  "Sanitize_frame df =
     (case get_col df (comment_of df) of
        Inl e \<Rightarrow> Inl e
      | Inr col \<Rightarrow>
          if \<exists>c \<in> set col. is_num c then Inl AttributeError
          else Inr (set_col df (comment_of df)
                      (map Str (map Sanitize_text (map (filled (py ''unk'')) col)))))"
proof (cases "get_col df (comment_of df)")
  case (Inl e)
  then show ?thesis
    by (simp add: Sanitize_frame_def Let_def update_col_first comment_of_def)
next
  case (Inr col)
  show ?thesis
  proof (cases "\<exists>c \<in> set col. is_num c")
    case True
    with Inr show ?thesis
      by (simp add: Sanitize_frame_def Let_def update_col_first [of _ _ df] update_set_col
            comment_of_def [symmetric] apply_str_num del: map_map)
  next
    case False
    with Inr show ?thesis
      by (simp add: Sanitize_frame_def Let_def update_col_first [of _ _ df] update_set_col
            comment_of_def [symmetric] fillna_no_num apply_str_Str del: map_map)
         (simp add: Sanitize_text_def Let_def comp_def)
  qed
qed

lemma text_normalization_frame_eq:
  "text_normalization_frame df =
     (case get_col df ''comment_text'' of
        Inl e \<Rightarrow> Inl e
      | Inr col \<Rightarrow>
          if \<exists>c \<in> set col. is_num c then Inl TypeError
          else Inr (set_col df ''comment_text''
                      (map Str (map text_normalization_text (map (filled (py ''unk'')) col)))))"
proof (cases "get_col df ''comment_text''")
  case (Inl e)
  then show ?thesis
    by (simp add: text_normalization_frame_def update_col_first)
next
  case (Inr col)
  show ?thesis
  proof (cases "\<exists>c \<in> set col. is_num c")
    case True
    with Inr show ?thesis
      by (simp add: text_normalization_frame_def update_col_first [of _ _ df] update_set_col
            apply_str_num del: map_map)
  next
    case False
    with Inr show ?thesis
      by (simp add: text_normalization_frame_def update_col_first [of _ _ df] update_set_col
            fillna_no_num apply_str_Str del: map_map)
         (simp add: text_normalization_text_def Let_def comp_def)
  qed
qed


lemma set_col_frame:
  assumes "get_col df n = Inr col"
  shows "idx (set_col df n c) = idx df"
    and "map fst (cols (set_col df n c)) = map fst (cols df)"
    and "m \<noteq> n \<Longrightarrow> map_of (cols (set_col df n c)) m = map_of (cols df) m"
proof -
  from assms have "map_of (cols df) n \<noteq> None"
    by (auto simp: get_col_def split: option.splits)
  then have has: "has_col df n"
    by (simp add: has_col_def map_of_eq_None_iff)
  show "idx (set_col df n c) = idx df"
    by (simp add: set_col_def)
  show "map fst (cols (set_col df n c)) = map fst (cols df)"
    using has by (simp add: set_col_def fst_replace_col)
  show "m \<noteq> n \<Longrightarrow> map_of (cols (set_col df n c)) m = map_of (cols df) m"
    using has by (simp add: set_col_def map_of_replace_col_other)
qed

lemma Sanitize_frame_Inr:
  assumes "Sanitize_frame df = Inr df'"
  shows "\<exists>col. get_col df (comment_of df) = Inr col
           \<and> df' = set_col df (comment_of df)
                    (map Str (map Sanitize_text (map (filled (py ''unk'')) col)))"
  using assms unfolding Sanitize_frame_eq
  by (auto split: sum.splits if_splits)

lemma text_normalization_frame_Inr:
  assumes "text_normalization_frame df = Inr df'"
  shows "\<exists>col. get_col df ''comment_text'' = Inr col
           \<and> df' = set_col df ''comment_text''
                    (map Str (map text_normalization_text (map (filled (py ''unk'')) col)))"
  using assms unfolding text_normalization_frame_eq
  by (auto split: sum.splits if_splits)

subsection \<open>The three auxiliary models\<close>

lemma Ridge_fit_Inr:
  "Ridge_fit fit st self X y = Inr (st', m) \<Longrightarrow>
   \<exists>w. fit X y = Inr w \<and> st' = st[self := Some w] \<and> m = self"
  unfolding Ridge_fit_def by (auto dest!: and_then_Inr)

text \<open>
  C1, what the code does. \<^verbatim>\<open>main\<close> makes one \<^verbatim>\<open>Ridge\<close> object and fits it three
  times, so in every run that gets through the three \<^verbatim>\<open>cross_val_score\<close> calls, the
  three fits and the predictions, \<^verbatim>\<open>model_toxic\<close>, \<^verbatim>\<open>model_attack\<close> and
  \<^verbatim>\<open>model_aggression\<close> are the same object, which after the third fit holds the state
  fitted to the aggression matrix and labels: the toxicity model is overwritten after it
  was fit, and the toxicity and attack scores are predicted with the aggression state (on
  the matrix of the toxicity or attack vectorizer). The fit that comes last decides all
  three score columns.
\<close>

theorem C1_one_shared_ridge:
  assumes run: "main fit_transform transform cross_val_score fit predict
                  toxic attack aggression train test = Inr r"
  shows "\<exists>X_toxic tfidfer_toxic X_attack tfidfer_attack X_aggression tfidfer_aggression
            y_aggression w_aggression.
           Tfidfize fit_transform toxic = Inr (X_toxic, tfidfer_toxic)
         \<and> Tfidfize fit_transform attack = Inr (X_attack, tfidfer_attack)
         \<and> Tfidfize fit_transform aggression = Inr (X_aggression, tfidfer_aggression)
         \<and> get_col aggression ''aggression'' = Inr y_aggression
         \<and> fit X_aggression y_aggression = Inr w_aggression
         \<and> model_toxic r = model_aggression r
         \<and> model_attack r = model_aggression r
         \<and> estimators r = [Some w_aggression]
         \<and> model_aggression r = 0
         \<and> TfidfAndPredict transform predict [Some w_aggression] tfidfer_toxic 0 train test
             = Inr (toxic_scores r)
         \<and> TfidfAndPredict transform predict [Some w_aggression] tfidfer_attack 0 train test
             = Inr (attack_scores r)"
proof -
  from run obtain X_toxic tfidfer_toxic where
    t: "Tfidfize fit_transform toxic = Inr (X_toxic, tfidfer_toxic)"
    unfolding main_def by (auto dest!: and_then_Inr)
  from run obtain X_attack tfidfer_attack where
    a: "Tfidfize fit_transform attack = Inr (X_attack, tfidfer_attack)"
    unfolding main_def by (auto dest!: and_then_Inr)
  from run obtain X_aggression tfidfer_aggression where
    g: "Tfidfize fit_transform aggression = Inr (X_aggression, tfidfer_aggression)"
    unfolding main_def by (auto dest!: and_then_Inr)
  from run obtain y_toxic where yt: "get_col toxic ''toxicity'' = Inr y_toxic"
    unfolding main_def by (auto dest!: and_then_Inr)
  from run obtain y_attack where ya: "get_col attack ''attack'' = Inr y_attack"
    unfolding main_def by (auto dest!: and_then_Inr)
  from run obtain y_aggression where yg: "get_col aggression ''aggression'' = Inr y_aggression"
    unfolding main_def by (auto dest!: and_then_Inr)
  note run' = run [unfolded main_def t a g yt ya yg and_then_Inr_simp prod.case Ridge_def
                     Let_def append_Nil list.size]
  from run' obtain st1 m1 st2 m2 st3 m3 ts as gs where
    f1: "Ridge_fit fit [None] 0 X_toxic y_toxic = Inr (st1, m1)" and
    f2: "Ridge_fit fit st1 0 X_attack y_attack = Inr (st2, m2)" and
    f3: "Ridge_fit fit st2 0 X_aggression y_aggression = Inr (st3, m3)" and
    p1: "TfidfAndPredict transform predict st3 tfidfer_toxic m1 train test = Inr ts" and
    p2: "TfidfAndPredict transform predict st3 tfidfer_attack m2 train test = Inr as" and
    p3: "TfidfAndPredict transform predict st3 tfidfer_aggression m3 train test = Inr gs" and
    r: "r = \<lparr>model_toxic = m1, model_attack = m2, model_aggression = m3, estimators = st3,
             toxic_scores = ts, attack_scores = as, aggression_scores = gs\<rparr>"
    by (auto dest!: and_then_Inr)
  from Ridge_fit_Inr [OF f1] obtain w1 where s1: "st1 = [Some w1]" "m1 = 0" by auto
  from Ridge_fit_Inr [OF f2] obtain w2 where s2: "st2 = [Some w2]" "m2 = 0"
    unfolding s1 by auto
  from Ridge_fit_Inr [OF f3] obtain w3 where
    s3: "fit X_aggression y_aggression = Inr w3" "st3 = [Some w3]" "m3 = 0"
    unfolding s2 by auto
  show ?thesis
    using t a g yg s3 p1 p2 unfolding r s1 s2 by simp
qed


text \<open>
  A run on three annotated corpora of six comments each, with the same comments and
  different labels, where every estimator call is recorded instead of computed: a fitted
  vectorizer is named by the comments it was fitted to, a matrix by the vectorizer and the
  comments it transforms, a fitted state by the matrix and labels of the fit, a score
  column by the state and the matrix it comes from; \<^verbatim>\<open>cross_val_score\<close> raises on fewer
  rows than its five folds.
\<close>

theorem C1_one_shared_ridge_witness:
  "(let comments = [Str (py ''nice work''), Str (py ''bad idea''), Str (py ''good point''),
                    Str (py ''stupid idiot''), Str (py ''thanks friend''),
                    Str (py ''awful person'')];
        ids = [Num 1, Num 2, Num 3, Num 4, Num 5, Num 6];
        toxic = \<lparr>idx = ids, cols = [(''comment'', comments),
                  (''toxicity'', [Num 0, Num 0, Num 0, Num 1, Num 0, Num 1])]\<rparr>;
        attack = \<lparr>idx = ids, cols = [(''comment'', comments),
                  (''attack'', [Num 0, Num 0, Num 0, Num 1, Num 0, Num 0])]\<rparr>;
        aggression = \<lparr>idx = ids, cols = [(''comment'', comments),
                  (''aggression'', [Num 0, Num 1, Num 0, Num 1, Num 0, Num 1])]\<rparr>;
        train = \<lparr>idx = [Num 0], cols = [(''comment_text'', [Str (py ''nice idea'')])]\<rparr>;
        test = \<lparr>idx = [Num 0], cols = [(''comment_text'', [Str (py ''stupid person'')])]\<rparr>;
        w_aggression = ((comments, comments),
                        [Num 0, Num 1, Num 0, Num 1, Num 0, Num (1::rat)]);
        r = \<lparr>model_toxic = 0, model_attack = 0, model_aggression = 0,
             estimators = [Some w_aggression],
             toxic_scores = ((w_aggression, comments, [Str (py ''nice idea'')]),
                             (w_aggression, comments, [Str (py ''stupid person'')])),
             attack_scores = ((w_aggression, comments, [Str (py ''nice idea'')]),
                              (w_aggression, comments, [Str (py ''stupid person'')])),
             aggression_scores = ((w_aggression, comments, [Str (py ''nice idea'')]),
                                  (w_aggression, comments, [Str (py ''stupid person'')]))\<rparr>
    in main (\<lambda>c. Inr ((c, c), c)) (\<lambda>v c. Inr (v, c))
            (\<lambda>X y. if length y < 5 then Inl ValueError else Inr ())
            (\<lambda>X y. Inr (X, y)) (\<lambda>w X. Inr (w, X))
            toxic attack aggression train test = Inr r
       \<and> model_toxic r = model_aggression r
       \<and> model_attack r = model_aggression r
       \<and> estimators r = [Some w_aggression])"
proof -
  define comments where "comments = [Str (py ''nice work''), Str (py ''bad idea''),
    Str (py ''good point''), Str (py ''stupid idiot''), Str (py ''thanks friend''),
    Str (py ''awful person'')]"
  define ids where "ids = [Num 1, Num 2, Num 3, Num 4, Num 5, Num 6]"
  define w_aggression where
    "w_aggression = ((comments, comments), [Num 0, Num 1, Num 0, Num 1, Num 0, Num (1::rat)])"
  define r where "r = \<lparr>model_toxic = 0, model_attack = 0, model_aggression = 0,
             estimators = [Some w_aggression],
             toxic_scores = ((w_aggression, comments, [Str (py ''nice idea'')]),
                             (w_aggression, comments, [Str (py ''stupid person'')])),
             attack_scores = ((w_aggression, comments, [Str (py ''nice idea'')]),
                              (w_aggression, comments, [Str (py ''stupid person'')])),
             aggression_scores = ((w_aggression, comments, [Str (py ''nice idea'')]),
                                  (w_aggression, comments, [Str (py ''stupid person'')]))\<rparr>"
  have run: "main (\<lambda>c. Inr ((c, c), c)) (\<lambda>v c. Inr (v, c))
            (\<lambda>X y. if length y < 5 then Inl ValueError else Inr ())
            (\<lambda>X y. Inr (X, y)) (\<lambda>w X. Inr (w, X))
            \<lparr>idx = ids, cols = [(''comment'', comments),
                  (''toxicity'', [Num 0, Num 0, Num 0, Num 1, Num 0, Num 1])]\<rparr>
            \<lparr>idx = ids, cols = [(''comment'', comments),
                  (''attack'', [Num 0, Num 0, Num 0, Num 1, Num 0, Num 0])]\<rparr>
            \<lparr>idx = ids, cols = [(''comment'', comments),
                  (''aggression'', [Num 0, Num 1, Num 0, Num 1, Num 0, Num 1])]\<rparr>
            \<lparr>idx = [Num 0], cols = [(''comment_text'', [Str (py ''nice idea'')])]\<rparr>
            \<lparr>idx = [Num 0], cols = [(''comment_text'', [Str (py ''stupid person'')])]\<rparr>
          = Inr r"
    by (simp add: main_def Tfidfize_def TfidfAndPredict_def Ridge_def Ridge_fit_def
          Ridge_predict_def get_col_def has_col_def r_def w_aggression_def)
  from C1_one_shared_ridge [OF run]
  have "model_toxic r = model_aggression r \<and> model_attack r = model_aggression r"
    by blast
  moreover have "estimators r = [Some w_aggression]" by (simp add: r_def)
  ultimately show ?thesis
    using run unfolding Let_def comments_def ids_def w_aggression_def r_def by simp
qed

subsection \<open>Sanitization and the caller's table\<close>

lemmas heap_eval =
  text_normalization_def Sanitize_def text_normalization_frame_eq Sanitize_frame_eq
  comment_of_def get_col_def set_col_def has_col_def is_num_def filled_def
  text_normalization_text_def Sanitize_text_def text_eval

text \<open>
  C9, counterexample. The caller's table holds \<open>"Hi!"\<close>; after
  \<^verbatim>\<open>text_normalization\<close> the same object holds \<open>"hi"\<close>, after \<^verbatim>\<open>Sanitize\<close> it holds
  \<open>"hi!"\<close>: the input has been mutated.
\<close>

theorem C9_mutation_counterexample:
  "and_then (text_normalization
               (\<lambda>a. \<lparr>idx = [Num 0], cols = [(''comment_text'', [Str (py ''Hi!'')])]\<rparr>) 0)
            (\<lambda>h'. Inr (h' 0))
     = Inr \<lparr>idx = [Num 0], cols = [(''comment_text'', [Str (py ''hi'')])]\<rparr>
   \<and> and_then (Sanitize
               (\<lambda>a. \<lparr>idx = [Num 0], cols = [(''comment_text'', [Str (py ''Hi!'')])]\<rparr>) 0)
            (\<lambda>(h', r). Inr (h' 0, r))
     = Inr (\<lparr>idx = [Num 0], cols = [(''comment_text'', [Str (py ''hi!'')])]\<rparr>, 0)
   \<and> \<lparr>idx = [Num 0], cols = [(''comment_text'', [Str (py ''hi'')])]\<rparr>
       \<noteq> \<lparr>idx = [Num 0], cols = [(''comment_text'', [Str (py ''Hi!'')])]\<rparr>
   \<and> \<lparr>idx = [Num 0], cols = [(''comment_text'', [Str (py ''hi!'')])]\<rparr>
       \<noteq> \<lparr>idx = [Num 0], cols = [(''comment_text'', [Str (py ''Hi!'')])]\<rparr>"
  by (simp add: heap_eval)


text \<open>
  C9, amended. Both sanitizers change the caller's table in place: \<^verbatim>\<open>Sanitize\<close> returns
  the object it was given and \<^verbatim>\<open>text_normalization\<close> returns nothing. After a call that
  returns, the table the caller passed has its comment column replaced by the sanitized
  texts (a missing text counts as \<^verbatim>\<open>"unk"\<close>); its index, so the row order and the row
  count, its column names and their order, every other column, and every other object are
  as before.
\<close>

theorem C9_in_place:
  "(Sanitize h df = Inr (h', r) \<longrightarrow>
      r = df
    \<and> (\<forall>a. a \<noteq> df \<longrightarrow> h' a = h a)
    \<and> idx (h' df) = idx (h df)
    \<and> map fst (cols (h' df)) = map fst (cols (h df))
    \<and> (\<forall>n. n \<noteq> comment_of (h df) \<longrightarrow> map_of (cols (h' df)) n = map_of (cols (h df)) n)
    \<and> (\<exists>col. get_col (h df) (comment_of (h df)) = Inr col
            \<and> get_col (h' df) (comment_of (h df))
                = Inr (map Str (map Sanitize_text (map (filled (py ''unk'')) col)))))
   \<and> (text_normalization h df = Inr h'' \<longrightarrow>
      (\<forall>a. a \<noteq> df \<longrightarrow> h'' a = h a)
    \<and> idx (h'' df) = idx (h df)
    \<and> map fst (cols (h'' df)) = map fst (cols (h df))
    \<and> (\<forall>n. n \<noteq> ''comment_text'' \<longrightarrow> map_of (cols (h'' df)) n = map_of (cols (h df)) n)
    \<and> (\<exists>col. get_col (h df) ''comment_text'' = Inr col
            \<and> get_col (h'' df) ''comment_text''
                = Inr (map Str (map text_normalization_text (map (filled (py ''unk'')) col)))))"
proof (intro conjI impI)
  assume a: "Sanitize h df = Inr (h', r)"
  then obtain f where f: "Sanitize_frame (h df) = Inr f" and h': "h' = h(df := f)" and r: "r = df"
    by (auto simp: Sanitize_def dest!: and_then_Inr)
  from Sanitize_frame_Inr [OF f] obtain col where
    col: "get_col (h df) (comment_of (h df)) = Inr col" and
    f_eq: "f = set_col (h df) (comment_of (h df))
                 (map Str (map Sanitize_text (map (filled (py ''unk'')) col)))"
    by blast
  show "r = df" by (rule r)
  show "\<forall>a. a \<noteq> df \<longrightarrow> h' a = h a" by (simp add: h')
  show "idx (h' df) = idx (h df)" by (simp add: h' f_eq set_col_frame(1) [OF col])
  show "map fst (cols (h' df)) = map fst (cols (h df))"
    by (simp add: h' f_eq set_col_frame(2) [OF col] del: map_map)
  show "\<forall>n. n \<noteq> comment_of (h df) \<longrightarrow> map_of (cols (h' df)) n = map_of (cols (h df)) n"
    by (simp add: h' f_eq set_col_frame(3) [OF col])
  show "\<exists>col. get_col (h df) (comment_of (h df)) = Inr col
            \<and> get_col (h' df) (comment_of (h df))
                = Inr (map Str (map Sanitize_text (map (filled (py ''unk'')) col)))"
    using col by (simp add: h' f_eq get_set_col del: map_map)
next
  assume a: "text_normalization h df = Inr h''"
  then obtain f where f: "text_normalization_frame (h df) = Inr f" and h': "h'' = h(df := f)"
    by (auto simp: text_normalization_def dest!: and_then_Inr)
  from text_normalization_frame_Inr [OF f] obtain col where
    col: "get_col (h df) ''comment_text'' = Inr col" and
    f_eq: "f = set_col (h df) ''comment_text''
                 (map Str (map text_normalization_text (map (filled (py ''unk'')) col)))"
    by blast
  show "\<forall>a. a \<noteq> df \<longrightarrow> h'' a = h a" by (simp add: h')
  show "idx (h'' df) = idx (h df)" by (simp add: h' f_eq set_col_frame(1) [OF col])
  show "map fst (cols (h'' df)) = map fst (cols (h df))"
    by (simp add: h' f_eq set_col_frame(2) [OF col] del: map_map)
  show "\<forall>n. n \<noteq> ''comment_text'' \<longrightarrow> map_of (cols (h'' df)) n = map_of (cols (h df)) n"
    by (simp add: h' f_eq set_col_frame(3) [OF col])
  show "\<exists>col. get_col (h df) ''comment_text'' = Inr col
            \<and> get_col (h'' df) ''comment_text''
                = Inr (map Str (map text_normalization_text (map (filled (py ''unk'')) col)))"
    using col by (simp add: h' f_eq get_set_col del: map_map)
qed

theorem C9_in_place_witness:
  "Sanitize (\<lambda>a. \<lparr>idx = [Num 0], cols = [(''comment_text'', [Str (py ''Hi!'')]),
                                           (''toxic'', [Num 1])]\<rparr>) 0
     = Inr ((\<lambda>a. \<lparr>idx = [Num 0], cols = [(''comment_text'', [Str (py ''Hi!'')]),
                                           (''toxic'', [Num 1])]\<rparr>)
              (0 := \<lparr>idx = [Num 0], cols = [(''comment_text'', [Str (py ''hi!'')]),
                                           (''toxic'', [Num 1])]\<rparr>), 0)
   \<and> text_normalization (\<lambda>a. \<lparr>idx = [Num 0], cols = [(''comment_text'', [Str (py ''Hi!'')]),
                                           (''toxic'', [Num 1])]\<rparr>) 0
     = Inr ((\<lambda>a. \<lparr>idx = [Num 0], cols = [(''comment_text'', [Str (py ''Hi!'')]),
                                           (''toxic'', [Num 1])]\<rparr>)
              (0 := \<lparr>idx = [Num 0], cols = [(''comment_text'', [Str (py ''hi'')]),
                                           (''toxic'', [Num 1])]\<rparr>))
   \<and> map_of [(''comment_text'', [Str (py ''hi!'')]), (''toxic'', [Num 1])] ''toxic''
     = map_of [(''comment_text'', [Str (py ''Hi!'')]), (''toxic'', [Num 1])] ''toxic''"
proof -
  let ?F = "\<lparr>idx = [Num 0], cols = [(''comment_text'', [Str (py ''Hi!'')]),
                                           (''toxic'', [Num 1])]\<rparr>"
  let ?S = "\<lparr>idx = [Num 0], cols = [(''comment_text'', [Str (py ''hi!'')]),
                                           (''toxic'', [Num 1])]\<rparr>"
  let ?T = "\<lparr>idx = [Num 0], cols = [(''comment_text'', [Str (py ''hi'')]),
                                           (''toxic'', [Num 1])]\<rparr>"
  have s: "Sanitize (\<lambda>a. ?F) 0 = Inr ((\<lambda>a. ?F)(0 := ?S), 0)"
    by (simp add: heap_eval)
  have t: "text_normalization (\<lambda>a. ?F) 0 = Inr ((\<lambda>a. ?F)(0 := ?T))"
    by (simp add: heap_eval)
  have c: "''toxic'' \<noteq> comment_of ?F"
    by (simp add: comment_of_def has_col_def)
  note p = C9_in_place [of "\<lambda>a. ?F" 0 "(\<lambda>a. ?F)(0 := ?S)" 0 "(\<lambda>a. ?F)(0 := ?T)",
      THEN conjunct1, THEN mp, OF s]
  note q = p [THEN conjunct2, THEN conjunct2, THEN conjunct2, THEN conjunct2, THEN conjunct1,
      rule_format, OF c]
  from q have "map_of (cols ?S) ''toxic'' = map_of (cols ?F) ''toxic''"
    by simp
  with s t show ?thesis by simp
qed

subsection \<open>The aggregation of annotations\<close>

lemmas join_eval = JoinAndSanitize_def set_index_def groupby_mean_def groupby_keys_def
  numeric_dtype_def join_def lookup_row_def group_cells_def mean_cells_def numbers_def mean_def
  is_str_def Let_def

lemma get_col_has: "(\<exists>c. get_col df n = Inr c) = has_col df n"
  by (auto simp: get_col_def has_col_def map_of_eq_None_iff split: option.splits)
     (metis domD domI dom_map_of_conv_image_fst)

lemma get_col_KeyError: "\<not> has_col df n \<Longrightarrow> get_col df n = Inl KeyError"
  by (auto simp: get_col_def has_col_def map_of_eq_None_iff split: option.splits)

lemma get_col_Inl: "get_col df n = Inl e \<Longrightarrow> e = KeyError"
  by (auto simp: get_col_def split: option.splits)

lemma map_of_filter_other:
  "m \<noteq> name \<Longrightarrow> map_of (filter (\<lambda>(n, c). n \<noteq> name) xs) m = map_of xs m"
  by (induction xs) auto



lemma numbers_Num: "numbers (map Num qs) = qs"
  by (induction qs) (simp_all add: numbers_def)


lemma JoinAndSanitize_KeyError_cmt:
  "\<not> has_col cmt ''rev_id'' \<Longrightarrow> JoinAndSanitize fmean cmt annot = Inl KeyError"
  by (simp add: JoinAndSanitize_def set_index_def get_col_KeyError and_then_def)

lemma JoinAndSanitize_KeyError_annot:
  assumes "has_col cmt ''rev_id''" and "\<not> has_col annot ''rev_id''"
    and "length (idx annot) \<noteq> 1"
  shows "JoinAndSanitize fmean cmt annot = Inl KeyError"
proof -
  from assms(1) obtain ckeys where "get_col cmt ''rev_id'' = Inr ckeys"
    using get_col_has [of cmt "''rev_id''"] by blast
  then show ?thesis
    using assms(2,3)
    by (simp add: JoinAndSanitize_def set_index_def groupby_mean_def groupby_keys_def
          and_then_def)
qed

lemma fst_filter_subset: "set (map fst (filter P xs)) \<subseteq> set (map fst xs)"
  by (induction xs) auto

lemma fst_filter_other: "name \<notin> set (map fst (filter (\<lambda>(n, c). n \<noteq> name) xs))"
  by (induction xs) auto

lemma fst_filter_and:
  "name \<notin> set (map fst (filter (\<lambda>(n, c). n \<noteq> name \<and> Q c) xs))"
  by (induction xs) auto

lemma fst_map_snd: "map fst (map (\<lambda>(n, c). (n, f c)) xs) = map fst xs"
  by (induction xs) auto

text \<open>The frame that \<^verbatim>\<open>JoinAndSanitize\<close> hands to \<^verbatim>\<open>Sanitize\<close>.\<close>

lemma JoinAndSanitize_joined:
  fixes fmean :: "rat list \<Rightarrow> rat"
  assumes ck: "get_col cmt ''rev_id'' = Inr ckeys"
    and ak: "get_col annot ''rev_id'' = Inr akeys"
  defines "ks \<equiv> remdups (filter (\<lambda>k. k \<noteq> NaN) akeys)"
  defines "L \<equiv> filter (\<lambda>(n, c). n \<noteq> ''rev_id'') (cols cmt)"
  defines "M \<equiv> map (\<lambda>(n, c). (n, map (\<lambda>k. mean_cells fmean (group_cells akeys c k)) ks))
                  (filter (\<lambda>(n, c). n \<noteq> ''rev_id'' \<and> numeric_dtype c) (cols annot))"
  shows "JoinAndSanitize fmean cmt annot
         = (if \<exists>n \<in> set (map fst L). n \<in> set (map fst M) then Inl ValueError
            else Sanitize_frame \<lparr>idx = ckeys,
                   cols = L @ map (\<lambda>(n, c). (n, map (lookup_row ks c) ckeys)) M\<rparr>)"
proof -
  have s: "set_index cmt ''rev_id'' = Inr \<lparr>idx = ckeys, cols = L\<rparr>"
    by (simp add: set_index_def ck L_def)
  have "has_col annot ''rev_id''"
    using ak get_col_has [of annot "''rev_id''"] by blast
  then have k: "groupby_keys annot ''rev_id'' = Inr akeys"
    by (simp add: groupby_keys_def ak)
  have g: "groupby_mean fmean annot ''rev_id'' = Inr \<lparr>idx = ks, cols = M\<rparr>"
    by (simp add: groupby_mean_def k Let_def ks_def M_def)
  have j: "join \<lparr>idx = ckeys, cols = L\<rparr> \<lparr>idx = ks, cols = M\<rparr>
           = (if \<exists>n \<in> set (map fst L). n \<in> set (map fst M) then Inl ValueError
              else Inr \<lparr>idx = ckeys,
                     cols = L @ map (\<lambda>(n, c). (n, map (lookup_row ks c) ckeys)) M\<rparr>)"
    by (simp add: join_def del: set_map)
  show ?thesis
    by (simp add: JoinAndSanitize_def s g j del: set_map)
qed

lemma disjoint_names:
  assumes disj: "set (map fst (cols cmt)) \<inter> set (map fst (cols annot)) \<subseteq> {''rev_id''}"
  shows "\<not> (\<exists>n \<in> set (map fst (filter (\<lambda>(n, c). n \<noteq> ''rev_id'') (cols cmt))).
             n \<in> set (map fst (map (\<lambda>(n, c). (n, f c))
                    (filter (\<lambda>(n, c). n \<noteq> ''rev_id'' \<and> Q c) (cols annot)))))"
proof -
  have Ln: "set (map fst (filter (\<lambda>(n, c). n \<noteq> ''rev_id'') (cols cmt)))
              \<subseteq> set (map fst (cols cmt)) - {''rev_id''}"
    using fst_filter_subset [of "\<lambda>(n, c). n \<noteq> ''rev_id''" "cols cmt"]
      fst_filter_other [of "''rev_id''" "cols cmt"] by blast
  have Mn: "set (map fst (map (\<lambda>(n, c). (n, f c))
                    (filter (\<lambda>(n, c). n \<noteq> ''rev_id'' \<and> Q c) (cols annot))))
              \<subseteq> set (map fst (cols annot)) - {''rev_id''}"
    unfolding fst_map_snd
    using fst_filter_subset [of "\<lambda>(n, c). n \<noteq> ''rev_id'' \<and> Q c" "cols annot"]
      fst_filter_and [of "''rev_id''" Q "cols annot"] by blast
  from Ln Mn disj show ?thesis by blast
qed





lemmas agg_eval = join_eval heap_eval



text \<open>
  C8, counterexample. Both tables are empty (they have their columns and no rows):
  \<^verbatim>\<open>JoinAndSanitize\<close> does not fail, it returns a table without rows.
\<close>

theorem C8_empty_tables_counterexample:
  "JoinAndSanitize mean
     \<lparr>idx = [], cols = [(''rev_id'', []), (''comment'', [])]\<rparr>
     \<lparr>idx = [], cols = [(''rev_id'', []), (''toxicity'', [])]\<rparr>
   = Inr \<lparr>idx = [], cols = [(''comment'', [])]\<rparr>"
  by (simp add: agg_eval)

text \<open>
  C8, amended. \<^verbatim>\<open>JoinAndSanitize\<close> raises \<^verbatim>\<open>KeyError\<close> when the comment table has no
  column \<^verbatim>\<open>rev_id\<close>, and when the annotation table has no column \<^verbatim>\<open>rev_id\<close> and a number
  of rows other than one. When both tables have that column, the comment table has a
  column \<^verbatim>\<open>comment\<close> without numeric cells, and the two tables share no other column name,
  it returns a table, whatever the number of rows: an empty table is not an error.
\<close>

theorem C8_errors:
  "(\<not> has_col cmt ''rev_id'' \<longrightarrow> JoinAndSanitize fmean cmt annot = Inl KeyError)
   \<and> (has_col cmt ''rev_id'' \<and> \<not> has_col annot ''rev_id'' \<and> length (idx annot) \<noteq> 1
      \<longrightarrow> JoinAndSanitize fmean cmt annot = Inl KeyError)
   \<and> (has_col cmt ''rev_id'' \<and> has_col annot ''rev_id''
      \<and> get_col cmt ''comment'' = Inr col \<and> (\<forall>c \<in> set col. \<not> is_num c)
      \<and> set (map fst (cols cmt)) \<inter> set (map fst (cols annot)) \<subseteq> {''rev_id''}
      \<longrightarrow> (\<exists>df. JoinAndSanitize fmean cmt annot = Inr df))"
proof (intro conjI impI)
  assume "\<not> has_col cmt ''rev_id''"
  then show "JoinAndSanitize fmean cmt annot = Inl KeyError"
    by (rule JoinAndSanitize_KeyError_cmt)
next
  assume "has_col cmt ''rev_id'' \<and> \<not> has_col annot ''rev_id'' \<and> length (idx annot) \<noteq> 1"
  then show "JoinAndSanitize fmean cmt annot = Inl KeyError"
    by (intro JoinAndSanitize_KeyError_annot) simp_all
next
  assume a: "has_col cmt ''rev_id'' \<and> has_col annot ''rev_id''
      \<and> get_col cmt ''comment'' = Inr col \<and> (\<forall>c \<in> set col. \<not> is_num c)
      \<and> set (map fst (cols cmt)) \<inter> set (map fst (cols annot)) \<subseteq> {''rev_id''}"
  then obtain ckeys akeys where ck: "get_col cmt ''rev_id'' = Inr ckeys"
    and ak: "get_col annot ''rev_id'' = Inr akeys"
    using get_col_has [of cmt "''rev_id''"] get_col_has [of annot "''rev_id''"] by blast
  from a have ccol: "get_col cmt ''comment'' = Inr col"
    and nonum: "\<not> (\<exists>c \<in> set col. is_num c)"
    and disj: "set (map fst (cols cmt)) \<inter> set (map fst (cols annot)) \<subseteq> {''rev_id''}"
    by blast+
  define ks where "ks = remdups (filter (\<lambda>k. k \<noteq> NaN) akeys)"
  define L where "L = filter (\<lambda>(n, c). n \<noteq> ''rev_id'') (cols cmt)"
  define M where "M = map (\<lambda>(n, c). (n, map (\<lambda>k. mean_cells fmean (group_cells akeys c k)) ks))
      (filter (\<lambda>(n, c). n \<noteq> ''rev_id'' \<and> numeric_dtype c) (cols annot))"
  define R where "R = map (\<lambda>(n, c). (n, map (lookup_row ks c) ckeys)) M"
  define J where "J = \<lparr>idx = ckeys, cols = L @ R\<rparr>"
  have no: "\<not> (\<exists>n \<in> set (map fst L). n \<in> set (map fst M))"
    unfolding L_def M_def by (rule disjoint_names [OF disj])
  have unfold: "JoinAndSanitize fmean cmt annot = Sanitize_frame J"
    using JoinAndSanitize_joined [OF ck ak, where fmean = fmean, folded ks_def L_def, folded M_def,
        folded R_def, folded J_def] no by simp
  have "map_of (cols cmt) ''comment'' = Some col"
    using ccol by (auto simp: get_col_def split: option.splits)
  then have Lc: "map_of L ''comment'' = Some col"
    by (simp add: L_def map_of_filter_other)
  then have has: "has_col J ''comment''"
    unfolding has_col_def J_def
    by (metis domI dom_map_of_conv_image_fst frame.select_convs(2) image_Un set_append
        set_map UnI1)
  have Jc: "get_col J ''comment'' = Inr col"
    using Lc by (simp add: get_col_def J_def map_add_def)
  from has Jc nonum show "\<exists>df. JoinAndSanitize fmean cmt annot = Inr df"
    unfolding unfold Sanitize_frame_eq by (simp add: comment_of_def)
qed

theorem C8_errors_witness:
  "\<not> has_col \<lparr>idx = [Num 0], cols = [(''comment'', [Str (py ''a'')])]\<rparr> ''rev_id''
   \<and> JoinAndSanitize mean
       \<lparr>idx = [Num 0], cols = [(''comment'', [Str (py ''a'')])]\<rparr>
       \<lparr>idx = [Num 0], cols = [(''rev_id'', [Num 10]), (''toxicity'', [Num 1])]\<rparr>
     = Inl KeyError
   \<and> \<not> has_col \<lparr>idx = [Num 0, Num 1], cols = [(''toxicity'', [Num 1, Num 0])]\<rparr> ''rev_id''
   \<and> length (idx \<lparr>idx = [Num 0, Num 1], cols = [(''toxicity'', [Num 1, Num 0])]\<rparr>) \<noteq> 1
   \<and> JoinAndSanitize mean
       \<lparr>idx = [Num 0], cols = [(''rev_id'', [Num 10]), (''comment'', [Str (py ''a'')])]\<rparr>
       \<lparr>idx = [Num 0, Num 1], cols = [(''toxicity'', [Num 1, Num 0])]\<rparr>
     = Inl KeyError
   \<and> has_col \<lparr>idx = [], cols = [(''rev_id'', []), (''comment'', [])]\<rparr> ''rev_id''
   \<and> has_col \<lparr>idx = [], cols = [(''rev_id'', []), (''toxicity'', [])]\<rparr> ''rev_id''
   \<and> get_col \<lparr>idx = [], cols = [(''rev_id'', []), (''comment'', [])]\<rparr> ''comment'' = Inr []
   \<and> (\<exists>df. JoinAndSanitize mean
              \<lparr>idx = [], cols = [(''rev_id'', []), (''comment'', [])]\<rparr>
              \<lparr>idx = [], cols = [(''rev_id'', []), (''toxicity'', [])]\<rparr> = Inr df)"
proof -
  let ?N = "\<lparr>idx = [Num 0], cols = [(''comment'', [Str (py ''a'')])]\<rparr>"
  let ?A = "\<lparr>idx = [Num 0], cols = [(''rev_id'', [Num 10]), (''toxicity'', [Num 1])]\<rparr>"
  let ?C = "\<lparr>idx = [Num 0], cols = [(''rev_id'', [Num 10]), (''comment'', [Str (py ''a'')])]\<rparr>"
  let ?B = "\<lparr>idx = [Num 0, Num 1], cols = [(''toxicity'', [Num 1, Num 0])]\<rparr>"
  let ?CE = "\<lparr>idx = [], cols = [(''rev_id'', []), (''comment'', [])]\<rparr>"
  let ?AE = "\<lparr>idx = [], cols = [(''rev_id'', []), (''toxicity'', [])]\<rparr>"
  have nokey: "\<not> has_col ?N ''rev_id''"
    by (simp add: has_col_def)
  note fails = C8_errors [of ?N mean ?A, THEN conjunct1, THEN mp, OF nokey]
  have b1: "has_col ?C ''rev_id''" and b2: "\<not> has_col ?B ''rev_id''"
    and b3: "length (idx ?B) \<noteq> 1"
    by (simp_all add: has_col_def)
  from b1 b2 b3
  have "has_col ?C ''rev_id'' \<and> \<not> has_col ?B ''rev_id'' \<and> length (idx ?B) \<noteq> 1"
    by (intro conjI)
  note fails2 = C8_errors [of ?C mean ?B, THEN conjunct2, THEN conjunct1, THEN mp, OF this]
  have h1: "has_col ?CE ''rev_id''" and h2: "has_col ?AE ''rev_id''"
    by (simp_all add: has_col_def)
  have h3: "get_col ?CE ''comment'' = Inr []"
    by (simp add: get_col_def)
  have h4: "\<forall>c \<in> set []. \<not> is_num c" by simp
  have h5: "set (map fst (cols ?CE)) \<inter> set (map fst (cols ?AE)) \<subseteq> {''rev_id''}"
    by simp
  from h1 h2 h3 h4 h5 have "has_col ?CE ''rev_id'' \<and> has_col ?AE ''rev_id''
      \<and> get_col ?CE ''comment'' = Inr [] \<and> (\<forall>c \<in> set []. \<not> is_num c)
      \<and> set (map fst (cols ?CE)) \<inter> set (map fst (cols ?AE)) \<subseteq> {''rev_id''}"
    by (intro conjI)
  note succeeds = C8_errors [of ?CE mean ?AE "[]", THEN conjunct2, THEN conjunct2, THEN mp,
      OF this]
  show ?thesis
    by (intro conjI) (rule nokey fails b2 b3 fails2 h1 h2 h3 succeeds)+
qed

subsection \<open>Sanitizing twice\<close>

lemma is_space_32 [simp]: "is_space 32"
  by (simp add: is_space_def)

lemma not_space_33 [simp]: "\<not> is_space 33"
  by (simp add: is_space_def)

lemma wnf_weaken: "wnf True pb s \<Longrightarrow> wnf False pb s"
  by (cases s) (auto split: if_splits)

lemma tail_space_Cons: "cs \<noteq> [] \<Longrightarrow> tail_space (c # cs) = tail_space cs"
  by (simp add: tail_space_def)

text \<open>On a text in normal form the two substitutions only add a space after a final
  exclamation mark.\<close>

lemma spaces_bangs_wnf:
  "wnf ps pb d \<Longrightarrow>
     sub_spaces_from (ps \<or> pb) (sub_bangs_from pb d)
       = (if pb then drop 1 d else d) @ tail_space d"
proof (induction d arbitrary: ps pb)
  case Nil
  then show ?case by (simp add: tail_space_def)
next
  case (Cons c cs)
  show ?case
  proof (cases "c = SPACE")
    case True
    with Cons.prems have w: "wnf True False cs" and ps: "\<not> ps" by simp_all
    from Cons.IH [OF w] have ih: "sub_spaces_from True (sub_bangs_from False cs) = cs @ tail_space cs"
      by simp
    have ts: "cs @ tail_space (c # cs) = cs @ tail_space cs"
      using True by (cases "cs = []") (simp_all add: tail_space_def)
    show ?thesis
      using True ps ih ts by (cases pb) simp_all
  next
    case False
    with Cons.prems have nsp: "\<not> is_space c" and pb: "\<not> pb"
      and w: "wnf False (c = BANG) cs" by simp_all
    show ?thesis
    proof (cases "c = BANG")
      case True
      with w have w': "wnf False True cs" by simp
      from Cons.IH [OF w'] have ih:
        "sub_spaces_from True (sub_bangs_from True cs) = drop 1 cs @ tail_space cs" by simp
      show ?thesis
      proof (cases cs)
        case Nil
        with True pb ih show ?thesis by (simp add: tail_space_def)
      next
        case (Cons e es)
        with w' have e: "e = SPACE" by (simp split: if_splits)
        with True pb ih Cons show ?thesis by (simp add: tail_space_def)
      qed
    next
      case nb: False
      with w have w': "wnf False False cs" by simp
      from Cons.IH [OF w'] have ih:
        "sub_spaces_from False (sub_bangs_from False cs) = cs @ tail_space cs" by simp
      have ts: "tail_space (c # cs) = tail_space cs"
        using nb by (cases "cs = []") (simp_all add: tail_space_def)
      show ?thesis
        using nb nsp pb ih ts by simp
    qed
  qed
qed

text \<open>The two substitutions produce a text in normal form.\<close>

lemma wnf_spaces_bangs:
  "(b1 \<longrightarrow> b2) \<Longrightarrow> wnf b2 False (sub_spaces_from b2 (sub_bangs_from b1 a))"
proof (induction a arbitrary: b1 b2)
  case Nil
  then show ?case by simp
next
  case (Cons c cs)
  show ?case
  proof (cases "c = BANG")
    case True
    show ?thesis
    proof (cases b1)
      case True
      with Cons.prems have b2 by simp
      with Cons.IH [of True True] \<open>c = BANG\<close> True show ?thesis by simp
    next
      case False
      with Cons.IH [of True True] \<open>c = BANG\<close> show ?thesis by simp
    qed
  next
    case False
    show ?thesis
    proof (cases "is_space c")
      case True
      with Cons.IH [of False True] False show ?thesis by (cases b2) simp_all
    next
      case nsp: False
      then have "c \<noteq> SPACE" by auto
      with Cons.IH [of False False] False nsp show ?thesis by simp
    qed
  qed
qed

lemma strip_right_Cons:
  "rev (dropWhile P (rev (c # cs)))
     = (if \<forall>x \<in> set (c # cs). P x then [] else c # rev (dropWhile P (rev cs)))"
  by (auto simp: dropWhile_append)

lemma wnf_strip_right: "wnf ps pb s \<Longrightarrow> wnf ps pb (rev (dropWhile is_space (rev s)))"
proof (induction s arbitrary: ps pb)
  case Nil
  then show ?case by simp
next
  case (Cons c cs)
  show ?case
  proof (cases "\<forall>x \<in> set (c # cs). is_space x")
    case True
    then have "rev (dropWhile is_space (rev (c # cs))) = []"
      by (subst strip_right_Cons) simp
    then show ?thesis by (simp only: wnf.simps)
  next
    case False
    then have eq: "rev (dropWhile is_space (rev (c # cs)))
                   = c # rev (dropWhile is_space (rev cs))"
      by (subst strip_right_Cons) simp
    from Cons.prems Cons.IH show ?thesis
      unfolding eq by (auto split: if_splits)
  qed
qed

lemma wnf_dropWhile: "wnf False False s \<Longrightarrow> wnf False False (dropWhile is_space s)"
proof (cases s)
  case Nil
  then show ?thesis by simp
next
  case (Cons c cs)
  assume w: "wnf False False s"
  show ?thesis
  proof (cases "is_space c")
    case False
    with Cons w show ?thesis by simp
  next
    case True
    with Cons w have c: "c = SPACE" and w': "wnf True False cs"
      by (auto split: if_splits)
    have "dropWhile is_space cs = cs"
      using w' by (cases cs) (auto split: if_splits)
    with Cons c w' show ?thesis by (simp add: wnf_weaken)
  qed
qed

lemma strip_ends:
  "strip s = [] \<or> (\<not> is_space (hd (strip s)) \<and> \<not> is_space (last (strip s)))"
proof (cases "strip s = []")
  case True
  then show ?thesis by simp
next
  case False
  define t where "t = dropWhile is_space s"
  have st: "strip s = rev (dropWhile is_space (rev t))" by (simp add: strip_def t_def)
  with False have ne: "dropWhile is_space (rev t) \<noteq> []" by simp
  then have "\<not> is_space (hd (dropWhile is_space (rev t)))" by (rule hd_dropWhile)
  then have l: "\<not> is_space (last (strip s))"
    using ne by (simp add: st last_rev)
  from ne have tne: "t \<noteq> []" by auto
  then have h: "\<not> is_space (hd t)" unfolding t_def by (rule hd_dropWhile)
  from tne obtain c cs where t: "t = c # cs" by (cases t) auto
  with h have "rev (dropWhile is_space (rev t)) = c # rev (dropWhile is_space (rev cs))"
    unfolding t by (subst strip_right_Cons) auto
  with h t have "\<not> is_space (hd (strip s))" by (simp add: st)
  with l show ?thesis by simp
qed

lemma strip_id:
  assumes "d = [] \<or> (\<not> is_space (hd d) \<and> \<not> is_space (last d))"
  shows "strip d = d" and "strip (d @ [SPACE]) = d"
proof -
  show "strip d = d"
  proof (cases "d = []")
    case True
    then show ?thesis by (simp add: strip_def)
  next
    case False
    with assms have h: "\<not> is_space (hd d)" and l: "\<not> is_space (last d)" by auto
    from False h have 1: "dropWhile is_space d = d" by (cases d) auto
    from False l have 2: "dropWhile is_space (rev d) = rev d"
      by (cases "rev d") (auto simp: last_rev [symmetric] hd_rev)
    show ?thesis by (simp add: strip_def 1 2)
  qed
  show "strip (d @ [SPACE]) = d"
  proof (cases "d = []")
    case True
    then show ?thesis by (simp add: strip_def)
  next
    case False
    with assms have h: "\<not> is_space (hd d)" and l: "\<not> is_space (last d)" by auto
    from False h have 1: "dropWhile is_space (d @ [SPACE]) = d @ [SPACE]" by (cases d) auto
    from False l have 2: "dropWhile is_space (rev d) = rev d"
      by (cases "rev d") (auto simp: last_rev [symmetric] hd_rev)
    show ?thesis by (simp add: strip_def 1 2)
  qed
qed

lemma nf_strip_spaces_bangs: "nf (strip (sub_spaces (sub_bangs a)))"
proof -
  have "wnf False False (sub_spaces (sub_bangs a))"
    unfolding sub_spaces_def sub_bangs_def by (rule wnf_spaces_bangs) simp
  then have "wnf False False (strip (sub_spaces (sub_bangs a)))"
    unfolding strip_def by (intro wnf_strip_right wnf_dropWhile)
  with strip_ends [of "sub_spaces (sub_bangs a)"] show ?thesis
    by (simp add: nf_def)
qed

lemma strip_spaces_bangs_nf: "nf d \<Longrightarrow> strip (sub_spaces (sub_bangs d)) = d"
proof -
  assume n: "nf d"
  then have w: "wnf False False d"
    and e: "d = [] \<or> (\<not> is_space (hd d) \<and> \<not> is_space (last d))"
    by (simp_all add: nf_def)
  from spaces_bangs_wnf [OF w] have "sub_spaces (sub_bangs d) = d @ tail_space d"
    by (simp add: sub_spaces_def sub_bangs_def)
  then show ?thesis
    using strip_id [OF e] by (simp add: tail_space_def)
qed

lemma lower_char_space [simp]: "is_space (lower_char c) = is_space c"
  by (auto simp: lower_char_def is_upper_def is_space_def)

lemma lower_char_32 [simp]: "(lower_char c = 32) = (c = 32)"
  by (auto simp: lower_char_def is_upper_def)

lemma lower_char_33 [simp]: "(lower_char c = 33) = (c = 33)"
  by (auto simp: lower_char_def is_upper_def)

lemma wnf_lower: "wnf ps pb (lower s) = wnf ps pb s"
  by (induction s arbitrary: ps pb) (simp_all add: lower_def)

lemma nf_lower: "nf d \<Longrightarrow> nf (lower d)"
  by (cases "d = []") (auto simp: nf_def wnf_lower, auto simp: lower_def hd_map last_map)

lemma set_sub_bangs: "set (sub_bangs_from b s) \<subseteq> insert SPACE (set s)"
  by (induction s arbitrary: b) auto

lemma set_sub_spaces: "set (sub_spaces_from b s) \<subseteq> insert SPACE (set s)"
  by (induction s arbitrary: b) auto

lemma set_strip: "set (strip s) \<subseteq> set s"
proof -
  have "set (strip s) \<subseteq> set (dropWhile is_space s)"
    unfolding strip_def using set_dropWhileD [of _ is_space "rev (dropWhile is_space s)"]
    by auto
  then show ?thesis using set_dropWhileD [of _ is_space s] by blast
qed

lemma alpha_lower_tail:
  assumes "\<forall>c \<in> set w. is_letter c \<or> c = SPACE \<or> c = BANG"
  shows "\<forall>c \<in> set (lower (strip (sub_spaces (sub_bangs w)))). alpha c"
proof -
  have "set (strip (sub_spaces (sub_bangs w))) \<subseteq> insert SPACE (set w)"
    using set_strip [of "sub_spaces (sub_bangs w)"]
      set_sub_spaces [of False "sub_bangs w"] set_sub_bangs [of False w]
    unfolding sub_spaces_def sub_bangs_def by blast
  with assms have "\<forall>c \<in> set (strip (sub_spaces (sub_bangs w))). is_letter c \<or> c = SPACE \<or> c = BANG"
    by blast
  then show ?thesis
    by (auto simp: lower_def alpha_def lower_char_def is_letter_def is_upper_def is_lower_def)
qed

lemma letters_sub_not_letter_bang:
  "\<forall>c \<in> set (sub_not_letter_bang w). is_letter c \<or> c = SPACE \<or> c = BANG"
  by (auto simp: sub_not_letter_bang_def)

lemma letters_sub_not_letter:
  "\<forall>c \<in> set (sub_not_letter w). is_letter c \<or> c = SPACE \<or> c = BANG"
  by (auto simp: sub_not_letter_def)

lemma alpha_lower_id: "\<forall>c \<in> set y. alpha c \<Longrightarrow> lower y = y"
  by (induction y) (auto simp: lower_def lower_char_def alpha_def is_upper_def is_lower_def)

lemma alpha_sub_not_letter_bang_id: "\<forall>c \<in> set y. alpha c \<Longrightarrow> sub_not_letter_bang y = y"
  by (induction y) (auto simp: sub_not_letter_bang_def alpha_def is_letter_def)

lemma replace_absent_char:
  "c \<in> set old \<Longrightarrow> c \<notin> set s \<Longrightarrow> replace_from old new 0 s = s"
proof (induction s)
  case Nil
  then show ?case by simp
next
  case (Cons a s)
  have "take (length old) (a # s) \<noteq> old"
  proof
    assume "take (length old) (a # s) = old"
    then have "set old \<subseteq> set (a # s)" by (metis set_take_subset)
    with Cons.prems show False by auto
  qed
  with Cons show ?case by simp
qed

lemma starts_with_char: "starts_with s p \<Longrightarrow> c \<in> set p \<Longrightarrow> c \<in> set s"
  unfolding starts_with_def by (metis in_set_takeD)

lemma sub_http_id: "58 \<notin> set y \<Longrightarrow> sub_http y = y"
proof -
  assume a: "58 \<notin> set y"
  have "\<not> starts_with y p" if "58 \<in> set p" for p
    using a that starts_with_char by blast
  then show ?thesis
    by (simp add: sub_http_def py_def)
qed

lemma sub_email_id: "AT \<notin> set y \<Longrightarrow> m \<noteq> Drop \<Longrightarrow> sub_email_from m y = y"
proof (induction y arbitrary: m)
  case Nil
  then show ?case by simp
next
  case (Cons c cs)
  then have "AT \<notin> set (takeWhile (\<lambda>d. \<not> is_space d) (c # cs))"
    by (metis set_takeWhileD)
  with Cons show ?case by (cases m) auto
qed

lemma plain_letter: "plain s \<Longrightarrow> c \<in> set s \<Longrightarrow> is_letter_ic c = is_letter c"
  by (auto simp: plain_def is_letter_ic_def)

lemma plain_Cons: "plain (c # cs) \<Longrightarrow> plain cs"
  by (simp add: plain_def)

lemma is_letter_u [simp]: "is_letter 117" "is_letter 85" "is_letter 121" "is_letter 111"
  by (simp_all add: is_letter_def is_upper_def is_lower_def)

lemma space_not_letter: "is_space c \<Longrightarrow> \<not> is_letter c"
  by (auto simp: is_space_def is_letter_def is_upper_def is_lower_def)

lemma nlu_mono: "nlu False s \<Longrightarrow> nlu pl s"
  by (cases s) auto

lemma hd_letter_sub_u: "hd_letter cs \<Longrightarrow> hd_letter (sub_u_from prev cs)"
  by (cases cs) (auto simp: hd_letter_def py_def)

lemma sub_u_from_Cons:
  "sub_u_from prev (c # cs)
     = (if lone_u prev c cs then [121, 111, 117] @ sub_u_from (Some c) cs
        else c # sub_u_from (Some c) cs)"
  by (simp add: lone_u_def py_def)

lemma lone_u_letter: "lone_u prev c cs \<Longrightarrow> is_letter c"
  by (auto simp: lone_u_def)

lemma not_lone_u:
  assumes "\<not> lone_u prev c cs" and "c = 117 \<or> c = 85" and "prev_plain prev" and "plain cs"
  shows "prev_letter prev \<or> hd_letter cs"
proof (cases "case prev of None \<Rightarrow> False | Some p \<Rightarrow> is_letter_ic p")
  case True
  with assms(3) show ?thesis
    by (cases prev) (simp_all add: prev_plain_def prev_letter_def)
next
  case False
  with assms(1,2) have "case cs of [] \<Rightarrow> False | d # _ \<Rightarrow> is_letter_ic d"
    by (simp add: lone_u_def)
  then obtain d ds where cs: "cs = d # ds" and d: "is_letter_ic d"
    by (cases cs) simp_all
  from assms(4) cs have "is_letter_ic d = is_letter d"
    by (simp add: plain_letter)
  with d cs show ?thesis by (simp add: hd_letter_def)
qed

lemma nlu_sub_u:
  "plain s \<Longrightarrow> prev_plain prev \<Longrightarrow> nlu (prev_letter prev) (sub_u_from prev s)"
proof (induction s arbitrary: prev)
  case Nil
  then show ?case by simp
next
  case (Cons c cs)
  have pc: "plain cs" using Cons.prems(1) by (rule plain_Cons)
  have c: "is_letter_ic c = is_letter c"
    using Cons.prems(1) by (simp add: plain_letter)
  then have "prev_plain (Some c)" by (simp add: prev_plain_def)
  from Cons.IH [OF pc this]
  have ih: "nlu (is_letter c) (sub_u_from (Some c) cs)"
    by (simp add: prev_letter_def)
  show ?case
  proof (cases "lone_u prev c cs")
    case True
    then have "is_letter c" by (rule lone_u_letter)
    with ih have "nlu True (sub_u_from (Some c) cs)" by simp
    then have "nlu (prev_letter prev) ([121, 111, 117] @ sub_u_from (Some c) cs)"
      by (simp add: hd_letter_def)
    with True show ?thesis by (simp only: sub_u_from_Cons if_True)
  next
    case False
    have "prev_letter prev \<or> hd_letter (sub_u_from (Some c) cs)" if u: "c = 117 \<or> c = 85"
      using not_lone_u [OF False u Cons.prems(2) pc] hd_letter_sub_u by blast
    with ih have "nlu (prev_letter prev) (c # sub_u_from (Some c) cs)"
      by simp
    with False show ?thesis by (simp only: sub_u_from_Cons if_False)
  qed
qed

lemma sub_u_id:
  "nlu (prev_letter prev) y \<Longrightarrow> plain y \<Longrightarrow> prev_plain prev \<Longrightarrow> sub_u_from prev y = y"
proof (induction y arbitrary: prev)
  case Nil
  then show ?case by simp
next
  case (Cons c cs)
  have pc: "plain cs" using Cons.prems(2) by (rule plain_Cons)
  have c: "is_letter_ic c = is_letter c"
    using Cons.prems(2) by (simp add: plain_letter)
  then have pp: "prev_plain (Some c)" by (simp add: prev_plain_def)
  from Cons.prems(1) have "nlu (prev_letter (Some c)) cs"
    by (simp add: prev_letter_def)
  from Cons.IH [OF this pc pp] have ih: "sub_u_from (Some c) cs = cs" .
  have "\<not> lone_u prev c cs"
  proof
    assume a: "lone_u prev c cs"
    then have u: "c = 117 \<or> c = 85" by (simp add: lone_u_def)
    with Cons.prems(1) have "prev_letter prev \<or> hd_letter cs" by simp
    then show False
    proof
      assume "prev_letter prev"
      with a show False
        by (cases prev) (simp_all add: prev_letter_def lone_u_def is_letter_ic_def)
    next
      assume "hd_letter cs"
      with a show False
        by (cases cs) (simp_all add: hd_letter_def lone_u_def is_letter_ic_def)
    qed
  qed
  with ih show ?case by (simp only: sub_u_from_Cons if_False)
qed

lemma hd_letter_map:
  "(\<And>c. is_letter (g c) = is_letter c) \<Longrightarrow> hd_letter (map g s) = hd_letter s"
  by (cases s) (simp_all add: hd_letter_def)

lemma nlu_map:
  assumes "\<And>c. is_letter (g c) = is_letter c"
    and "\<And>c. (g c = 117 \<or> g c = 85) = (c = 117 \<or> c = 85)"
  shows "nlu pl (map g s) = nlu pl s"
proof (induction s arbitrary: pl)
  case Nil
  then show ?case by simp
next
  case (Cons c cs)
  show ?case
    by (simp only: list.map nlu.simps Cons.IH assms hd_letter_map [of g, OF assms(1)])
qed

lemma nlu_sub_not_letter_bang: "nlu pl (sub_not_letter_bang s) = nlu pl s"
  unfolding sub_not_letter_bang_def
  by (rule nlu_map) (auto simp: is_letter_def is_upper_def is_lower_def)

lemma nlu_lower: "nlu pl (lower s) = nlu pl s"
  unfolding lower_def
  by (rule nlu_map) (auto simp: lower_char_def is_letter_def is_upper_def is_lower_def)

lemma hd_letter_sub_bangs: "hd_letter s \<Longrightarrow> hd_letter (sub_bangs_from False s)"
  by (cases s) (auto simp: hd_letter_def is_letter_def is_upper_def is_lower_def)

lemma hd_letter_sub_spaces: "hd_letter s \<Longrightarrow> hd_letter (sub_spaces_from False s)"
  by (cases s) (auto simp: hd_letter_def dest: space_not_letter)

lemma not_letter_33 [simp]: "\<not> is_letter 33" "\<not> is_letter 32"
  by (simp_all add: is_letter_def is_upper_def is_lower_def)

lemma nlu_sub_bangs: "nlu pl s \<Longrightarrow> nlu pl (sub_bangs_from b s)"
proof (induction s arbitrary: pl b)
  case Nil
  then show ?case by simp
next
  case (Cons c cs)
  show ?case
  proof (cases "c = BANG")
    case True
    with Cons.prems have "nlu False cs" by simp
    from Cons.IH [OF this, of True] have "nlu False (sub_bangs_from True cs)" .
    with True show ?thesis
      by (cases b) (simp_all add: nlu_mono hd_letter_def)
  next
    case False
    from Cons.prems have n: "nlu (is_letter c) cs"
      and u: "(c = 117 \<or> c = 85) \<longrightarrow> pl \<or> hd_letter cs" by simp_all
    from Cons.IH [OF n, of False] have ih: "nlu (is_letter c) (sub_bangs_from False cs)" .
    from u hd_letter_sub_bangs
    have "(c = 117 \<or> c = 85) \<longrightarrow> pl \<or> hd_letter (sub_bangs_from False cs)" by blast
    with ih False show ?thesis by simp
  qed
qed

lemma nlu_sub_spaces: "nlu pl s \<Longrightarrow> nlu pl (sub_spaces_from b s)"
proof (induction s arbitrary: pl b)
  case Nil
  then show ?case by simp
next
  case (Cons c cs)
  show ?case
  proof (cases "is_space c")
    case True
    then have nl: "\<not> is_letter c" by (rule space_not_letter)
    with Cons.prems have "nlu False cs" by simp
    from Cons.IH [OF this, of True] have "nlu False (sub_spaces_from True cs)" .
    with True show ?thesis
      by (cases b) (simp_all add: nlu_mono)
  next
    case False
    from Cons.prems have n: "nlu (is_letter c) cs"
      and u: "(c = 117 \<or> c = 85) \<longrightarrow> pl \<or> hd_letter cs" by simp_all
    from Cons.IH [OF n, of False] have ih: "nlu (is_letter c) (sub_spaces_from False cs)" .
    from u hd_letter_sub_spaces
    have "(c = 117 \<or> c = 85) \<longrightarrow> pl \<or> hd_letter (sub_spaces_from False cs)" by blast
    with ih False show ?thesis by simp
  qed
qed

lemma nlu_dropWhile: "nlu pl s \<Longrightarrow> nlu pl (dropWhile is_space s)"
proof (induction s arbitrary: pl)
  case Nil
  then show ?case by simp
next
  case (Cons c cs)
  show ?case
  proof (cases "is_space c")
    case True
    then have "\<not> is_letter c" by (rule space_not_letter)
    with Cons.prems have "nlu False cs" by simp
    from Cons.IH [OF this] True show ?thesis by (simp add: nlu_mono)
  next
    case False
    with Cons.prems show ?thesis by simp
  qed
qed

lemma hd_letter_strip_right:
  assumes "hd_letter s"
  shows "hd_letter (rev (dropWhile is_space (rev s)))"
proof (cases s)
  case Nil
  with assms show ?thesis by (simp add: hd_letter_def)
next
  case (Cons c cs)
  with assms have l: "is_letter c" by (simp add: hd_letter_def)
  then have "\<not> is_space c" using space_not_letter by blast
  then have "rev (dropWhile is_space (rev (c # cs))) = c # rev (dropWhile is_space (rev cs))"
    by (subst strip_right_Cons) simp
  with Cons l show ?thesis by (simp add: hd_letter_def)
qed

lemma nlu_strip_right: "nlu pl s \<Longrightarrow> nlu pl (rev (dropWhile is_space (rev s)))"
proof (induction s arbitrary: pl)
  case Nil
  then show ?case by simp
next
  case (Cons c cs)
  show ?case
  proof (cases "\<forall>x \<in> set (c # cs). is_space x")
    case True
    then have "rev (dropWhile is_space (rev (c # cs))) = []"
      by (subst strip_right_Cons) simp
    then show ?thesis by (simp only: nlu.simps)
  next
    case False
    then have eq: "rev (dropWhile is_space (rev (c # cs)))
                   = c # rev (dropWhile is_space (rev cs))"
      by (subst strip_right_Cons) simp
    from Cons.prems have n: "nlu (is_letter c) cs"
      and u: "(c = 117 \<or> c = 85) \<longrightarrow> pl \<or> hd_letter cs" by simp_all
    from u hd_letter_strip_right
    have "(c = 117 \<or> c = 85) \<longrightarrow> pl \<or> hd_letter (rev (dropWhile is_space (rev cs)))"
      by blast
    with Cons.IH [OF n] show ?thesis unfolding eq by simp
  qed
qed

lemma nlu_strip: "nlu pl s \<Longrightarrow> nlu pl (strip s)"
  unfolding strip_def by (intro nlu_strip_right nlu_dropWhile)

lemma set_replace_from: "set (replace_from old new k s) \<subseteq> set s \<union> set new"
  by (induction s arbitrary: k) auto

lemma set_sub_http: "set (sub_http x) \<subseteq> insert SPACE (set x)"
proof -
  have "set (dropWhile (\<lambda>c. c = CR \<or> c = LF) (dropWhile (\<lambda>c. c \<noteq> LF) x)) \<subseteq> set x"
    by (meson set_dropWhileD subsetI)
  then show ?thesis by (auto simp: sub_http_def)
qed

lemma set_sub_email: "set (sub_email_from m s) \<subseteq> insert SPACE (set s)"
proof (induction s arbitrary: m)
  case Nil
  then show ?case by simp
next
  case (Cons c cs)
  have "set (sub_email_from m' cs) \<subseteq> insert SPACE (set (c # cs))" for m'
    using Cons [of m'] by auto
  then show ?case
    by (cases m) (simp_all add: subset_insertI2)
qed

lemma plain_subset: "plain s \<Longrightarrow> set t \<subseteq> insert SPACE (set s) \<Longrightarrow> plain t"
  by (auto simp: plain_def)

lemma plain_alpha: "\<forall>c \<in> set y. alpha c \<Longrightarrow> plain y"
  by (auto simp: plain_def alpha_def is_lower_def)

lemma alpha_absent:
  assumes "\<forall>c \<in> set y. alpha c" and "\<not> alpha c"
  shows "c \<notin> set y"
  using assms by blast

text \<open>What \<^verbatim>\<open>Sanitize\<close> returns is a fixed point of every one of its steps.\<close>

lemma Sanitize_text_fixed:
  assumes a: "\<forall>c \<in> set y. alpha c" and n: "nf y" and u: "nlu False y"
  shows "Sanitize_text y = y"
proof -
  have "78 \<in> set (py ''NEWLINE_TOKEN'')" and "84 \<in> set (py ''TAB_TOKEN'')"
    by (simp_all add: py_def)
  moreover have "78 \<notin> set y" "84 \<notin> set y" "58 \<notin> set y" "AT \<notin> set y"
    by (rule alpha_absent [OF a], simp add: alpha_def is_lower_def)+
  ultimately have r1: "replace y (py ''NEWLINE_TOKEN'') (py '' '') = y"
    and r2: "replace y (py ''TAB_TOKEN'') (py '' '') = y"
    and r3: "sub_http y = y" and r4: "sub_email y = y"
    unfolding replace_def sub_email_def
    by (simp_all add: replace_absent_char sub_http_id sub_email_id)
  have "prev_plain None" by (simp add: prev_plain_def)
  with u plain_alpha [OF a] have r5: "sub_u y = y"
    unfolding sub_u_def by (intro sub_u_id) (simp_all add: prev_letter_def)
  have r6: "sub_not_letter_bang y = y"
    using a by (rule alpha_sub_not_letter_bang_id)
  have r7: "strip (sub_spaces (sub_bangs y)) = y"
    using n by (rule strip_spaces_bangs_nf)
  have r8: "lower y = y"
    using a by (rule alpha_lower_id)
  show ?thesis
    by (simp add: Sanitize_text_def Let_def r1 r2 r3 r4 r5 r6 r7 r8)
qed

lemma Sanitize_text_normal:
  assumes "plain x"
  shows "\<forall>c \<in> set (Sanitize_text x). alpha c"
    and "nf (Sanitize_text x)"
    and "nlu False (Sanitize_text x)"
proof -
  define x4 where "x4 = sub_email (sub_http (replace (replace x (py ''NEWLINE_TOKEN'') (py '' ''))
                         (py ''TAB_TOKEN'') (py '' '')))"
  define a where "a = sub_not_letter_bang (sub_u x4)"
  have st: "Sanitize_text x = lower (strip (sub_spaces (sub_bangs a)))"
    by (simp add: Sanitize_text_def Let_def a_def x4_def)
  define x1 where "x1 = replace x (py ''NEWLINE_TOKEN'') (py '' '')"
  define x2 where "x2 = replace x1 (py ''TAB_TOKEN'') (py '' '')"
  have sp: "set (py '' '') = {SPACE}" by (simp add: py_def)
  have 1: "set x1 \<subseteq> insert SPACE (set x)"
    unfolding x1_def replace_def using set_replace_from [of "py ''NEWLINE_TOKEN''" "py '' ''" 0 x]
    unfolding sp by blast
  have 2: "set x2 \<subseteq> insert SPACE (set x1)"
    unfolding x2_def replace_def using set_replace_from [of "py ''TAB_TOKEN''" "py '' ''" 0 x1]
    unfolding sp by blast
  have 3: "set (sub_http x2) \<subseteq> insert SPACE (set x2)"
    by (rule set_sub_http)
  have 4: "set (sub_email (sub_http x2)) \<subseteq> insert SPACE (set (sub_http x2))"
    unfolding sub_email_def by (rule set_sub_email)
  have x4: "x4 = sub_email (sub_http x2)"
    by (simp add: x4_def x2_def x1_def)
  from 1 2 3 4 have "set x4 \<subseteq> insert SPACE (set x)"
    unfolding x4 by blast
  with assms have p4: "plain x4" by (rule plain_subset)
  have "prev_plain None" by (simp add: prev_plain_def)
  from nlu_sub_u [OF p4 this] have "nlu False (sub_u x4)"
    by (simp add: sub_u_def prev_letter_def)
  then have "nlu False a" by (simp add: a_def nlu_sub_not_letter_bang)
  then have "nlu False (strip (sub_spaces (sub_bangs a)))"
    unfolding sub_spaces_def sub_bangs_def by (intro nlu_strip nlu_sub_spaces nlu_sub_bangs)
  then show "nlu False (Sanitize_text x)" by (simp add: st nlu_lower)
  show "nf (Sanitize_text x)"
    unfolding st by (intro nf_lower nf_strip_spaces_bangs)
  show "\<forall>c \<in> set (Sanitize_text x). alpha c"
    unfolding st a_def by (intro alpha_lower_tail letters_sub_not_letter_bang)
qed

lemma Sanitize_text_idem: "plain x \<Longrightarrow> Sanitize_text (Sanitize_text x) = Sanitize_text x"
  by (intro Sanitize_text_fixed Sanitize_text_normal)

text \<open>
  C2, what the code does. \<^verbatim>\<open>Sanitize\<close> is idempotent on every text without the code
  points U+0130, U+0131, U+017F and U+212A. It is not on a text with one of them: it leaves
  a \<^verbatim>\<open>u\<close> that is followed by the Kelvin sign U+212A, which \<^verbatim>\<open>[a-z]\<close> matches under
  \<^verbatim>\<open>re.IGNORECASE\<close>, so the output is \<open>"u"\<close>, which a second pass turns into \<open>"you"\<close>.
  \<^verbatim>\<open>text_normalization\<close> is not idempotent on ASCII texts: it deletes the letters
  \<^verbatim>\<open>http\<close> after it has collapsed the whitespace and before it lower-cases, so \<open>"HTTP"\<close>
  becomes \<open>"http"\<close>, which a second pass deletes, and \<open>"a http b"\<close> becomes \<open>"a  b"\<close>,
  whose two spaces a second pass collapses.
\<close>

theorem C2_sanitizing_twice:
  "(plain x \<longrightarrow> Sanitize_text (Sanitize_text x) = Sanitize_text x)
   \<and> Sanitize_text [117, 8490] = py ''u''
   \<and> Sanitize_text (py ''u'') = py ''you''
   \<and> text_normalization_text (py ''HTTP'') = py ''http''
   \<and> text_normalization_text (py ''http'') = []
   \<and> text_normalization_text (py ''a http b'') = py ''a  b''
   \<and> text_normalization_text (py ''a  b'') = py ''a b''"
proof -
  have "plain x \<longrightarrow> Sanitize_text (Sanitize_text x) = Sanitize_text x"
    by (simp add: Sanitize_text_idem)
  moreover have "Sanitize_text [117, 8490] = py ''u''"
    and "Sanitize_text (py ''u'') = py ''you''"
    by (simp_all add: Sanitize_text_def text_eval)
  moreover have "text_normalization_text (py ''HTTP'') = py ''http''"
    and "text_normalization_text (py ''http'') = []"
    and "text_normalization_text (py ''a http b'') = py ''a  b''"
    and "text_normalization_text (py ''a  b'') = py ''a b''"
    by (simp_all add: text_normalization_text_def text_eval)
  ultimately show ?thesis by blast
qed

theorem C2_sanitizing_twice_witness:
  "Sanitize_text (Sanitize_text (py ''I LOVE this!!'')) = py ''i love this!''"
proof -
  have p: "plain (py ''I LOVE this!!'')"
    by (simp add: plain_def py_def)
  have e: "Sanitize_text (py ''I LOVE this!!'') = py ''i love this!''"
    by (simp add: Sanitize_text_def text_eval)
  from C2_sanitizing_twice [of "py ''I LOVE this!!''"] p
  have "Sanitize_text (Sanitize_text (py ''I LOVE this!!'')) = Sanitize_text (py ''I LOVE this!!'')"
    by blast
  then show ?thesis by (simp only: e)
qed

end
